theory Spec2Isabelle
  imports Main "HOL-Library.Word"
begin

section \<open>LLFileSystem: the per-asset byte-stream accessor of the viewer's disk cache\<close>

text \<open>
  A shallow embedding of \<^verbatim>\<open>indra/llfilesystem/llfilesystem.cpp\<close>. Every member
  function of \<^verbatim>\<open>LLFileSystem\<close> becomes a function that takes the session object
  and the state of the host (the cache volume, the platform's C library, the log) and
  returns its C++ result together with the updated session and host.
\<close>

subsection \<open>Machine types\<close>

type_synonym U8 = "8 word"

text \<open>
  \<^verbatim>\<open>S32\<close> is a 32-bit two's complement integer: a \<open>32 word\<close> read with \<open>sint\<close>.
  Additions wrap, and a conversion from a wider type keeps the low 32 bits.
\<close>

type_synonym S32 = "32 word"

text \<open>\<^verbatim>\<open>LLUUID\<close> is kept as the canonical string that \<^verbatim>\<open>toString\<close> renders.\<close>

type_synonym LLUUID = string

text \<open>\<^verbatim>\<open>LLAssetType::EType\<close> is kept as the value of the enumerator.\<close>

type_synonym EType = int

definition INT_MAX :: nat where
  "INT_MAX = 2147483647"

text \<open>The implicit conversion of an \<^verbatim>\<open>S32\<close> argument to \<^verbatim>\<open>size_t\<close> (64 bits).\<close>

definition size_t :: "S32 \<Rightarrow> nat" where
  "size_t n = unat (scast n :: 64 word)"

text \<open>
  The largest count a read or write call of the operating system takes. A negative
  \<^verbatim>\<open>S32\<close> count converts to a \<^verbatim>\<open>size_t\<close> above it.
\<close>

definition SSIZE_MAX :: nat where
  "SSIZE_MAX = 9223372036854775807"

definition ENOENT :: int where
  "ENOENT = 2"

definition ENOTEMPTY :: int where
  "ENOTEMPTY = 39"

subsection \<open>The open modes\<close>

definition READ :: S32 where
  "READ = 0x00000001"

definition WRITE :: S32 where
  "WRITE = 0x00000002"

definition READ_WRITE :: S32 where
  "READ_WRITE = 0x00000003"

definition APPEND :: S32 where
  "APPEND = 0x00000006"

subsection \<open>The host: cache volume, C library, log\<close>

text \<open>
  What a path of the cache volume names: a regular file with its bytes, or a directory
  with entries of its own, given with the \<^verbatim>\<open>st_size\<close> that \<^verbatim>\<open>stat\<close> reports for it.
\<close>

datatype node = Regular "U8 list" | Directory nat

text \<open>
  The state outside the session object.
  \<^item> \<open>metaDataToFilepath\<close> is the path resolver of the \<^verbatim>\<open>LLDiskCache\<close> singleton,
    whose code is not part of the file: it is a parameter of the model.
  \<^item> \<open>files\<close> is the content of the cache volume.
  \<^item> \<open>quota\<close> is the number of bytes the volume still takes: a write of the operating
    system stores what is left of it and no more, as on a full volume.
  \<^item> \<open>bufsiz\<close> is the size of the buffer the C library gives a stream; with
    0 a stream keeps every request until it is closed.
  \<^item> \<open>append_at_end\<close> and \<open>dir_opens_rb\<close> are two points where the platforms'
    C libraries differ: whether a stream opened in an append mode starts at the end of
    the file (the C standard leaves it to the implementation; it starts at the beginning
    with glibc and the Microsoft runtime), and whether a directory can be opened for
    reading (it can with glibc, and every read of it then fails).
  \<^item> \<open>access_log\<close> collects the paths whose access time was refreshed,
    \<open>warnings\<close> the messages logged at warning level.
\<close>

record host =
  metaDataToFilepath :: "string \<Rightarrow> EType \<Rightarrow> string \<Rightarrow> string"
  files :: "string \<rightharpoonup> node"
  quota :: nat
  bufsiz :: nat
  append_at_end :: bool
  dir_opens_rb :: bool
  access_log :: "string list"
  warnings :: "string list"

definition LL_WARNS :: "string \<Rightarrow> host \<Rightarrow> host" where
  "LL_WARNS msg h = h\<lparr>warnings := warnings h @ [msg]\<rparr>"

subsubsection \<open>stat\<close>

record llstat =
  S_ISREG :: bool
  st_size :: nat

text \<open>
  Modelled from the spec: \<^verbatim>\<open>LLFile::stat\<close>, whose code is not part of the file.
  \<open>None\<close> stands for a non-zero return value, which a path that names nothing gets;
  otherwise the result tells a regular file from any other node and gives the size.
\<close>

definition LLFile_stat :: "string \<Rightarrow> host \<Rightarrow> llstat option" where
  "LLFile_stat filename h =
     (case files h filename of
        None \<Rightarrow> None
      | Some (Regular bs) \<Rightarrow> Some \<lparr>S_ISREG = True, st_size = length bs\<rparr>
      | Some (Directory n) \<Rightarrow> Some \<lparr>S_ISREG = False, st_size = n\<rparr>)"

text \<open>
  Modelled from the spec: \<^verbatim>\<open>gDirUtilp->fileExists\<close> (class \<^verbatim>\<open>LLDir\<close>), whose code is
  not part of the file: a regular file exists at the path.
\<close>

definition fileExists :: "string \<Rightarrow> host \<Rightarrow> bool" where
  "fileExists filename h =
     (case files h filename of Some (Regular bs) \<Rightarrow> True | _ \<Rightarrow> False)"

text \<open>
  Modelled from the spec: \<^verbatim>\<open>LLDiskCache::updateFileAccessTime\<close>, whose code is not
  part of the file: the touch is recorded and never fails the caller.
\<close>

definition updateFileAccessTime :: "string \<Rightarrow> host \<Rightarrow> host" where
  "updateFileAccessTime filename h = h\<lparr>access_log := access_log h @ [filename]\<rparr>"

subsubsection \<open>remove and rename\<close>

text \<open>
  Modelled from the spec: \<^verbatim>\<open>LLFile::remove\<close>, whose code is not part of the file.
  It deletes a regular file; it fails with \<^verbatim>\<open>ENOENT\<close> where the path names nothing and
  with \<^verbatim>\<open>ENOTEMPTY\<close> on a directory. A failure is logged unless its error number is
  the one the caller suppresses. The first component is the return code.
\<close>

definition LLFile_remove :: "string \<Rightarrow> int \<Rightarrow> host \<Rightarrow> int \<times> host" where
  "LLFile_remove filename supress_error h =
     (case files h filename of
        Some (Regular bs) \<Rightarrow> (0, h\<lparr>files := (files h)(filename := None)\<rparr>)
      | Some (Directory n) \<Rightarrow>
          (- 1, if ENOTEMPTY \<noteq> supress_error then LL_WARNS ''Could not remove'' h else h)
      | None \<Rightarrow>
          (- 1, if ENOENT \<noteq> supress_error then LL_WARNS ''Could not remove'' h else h))"

text \<open>
  Modelled from the spec: \<^verbatim>\<open>LLFile::rename\<close>, whose code is not part of the file.
  The node moves to the new path. The call fails where the old path names nothing and,
  as the comment in \<^verbatim>\<open>renameFile\<close> has it (``Rename needs the new file to not exist''),
  where the new path names something. The first component is the return code.
\<close>

definition LLFile_rename :: "string \<Rightarrow> string \<Rightarrow> host \<Rightarrow> int \<times> host" where
  "LLFile_rename filename newname h =
     (case files h filename of
        None \<Rightarrow> (- 1, h)
      | Some n \<Rightarrow>
          (case files h newname of
             Some m \<Rightarrow> (- 1, h)
           | None \<Rightarrow> (0, h\<lparr>files := (files h)(filename := None, newname \<mapsto> n)\<rparr>)))"

subsubsection \<open>Streams\<close>

text \<open>
  An open stream (\<^verbatim>\<open>LLFILE*\<close>): the path it was opened on, the position of its file
  descriptor, whether every write is forced to the end of the file (the append modes),
  and the bytes written to the stream that wait in its buffer.
\<close>

record LLFILE =
  fname :: string
  fpos :: nat
  fappend :: bool
  fpending :: "U8 list"

text \<open>
  Modelled from the spec: \<^verbatim>\<open>LLFile::fopen\<close>, whose code is not part of the file,
  for the four access modes the file uses; \<open>None\<close> is the null pointer.
  \<^verbatim>\<open>rb\<close> and \<^verbatim>\<open>r+b\<close> need an existing file; \<^verbatim>\<open>wb\<close> creates the file or
  truncates it to length zero; \<^verbatim>\<open>a+b\<close> creates the file when it is missing and keeps
  its content otherwise. A directory opens in no writing mode.
\<close>

definition LLFile_fopen :: "string \<Rightarrow> string \<Rightarrow> host \<Rightarrow> (LLFILE \<times> host) option" where
  "LLFile_fopen filename accessmode h =
     (if accessmode = ''rb'' then
        (case files h filename of
           None \<Rightarrow> None
         | Some (Regular bs) \<Rightarrow> Some (\<lparr>fname = filename, fpos = 0, fappend = False, fpending = []\<rparr>, h)
         | Some (Directory n) \<Rightarrow>
             if dir_opens_rb h
             then Some (\<lparr>fname = filename, fpos = 0, fappend = False, fpending = []\<rparr>, h) else None)
      else if accessmode = ''r+b'' then
        (case files h filename of
           Some (Regular bs) \<Rightarrow> Some (\<lparr>fname = filename, fpos = 0, fappend = False, fpending = []\<rparr>, h)
         | _ \<Rightarrow> None)
      else if accessmode = ''wb'' then
        (case files h filename of
           Some (Directory n) \<Rightarrow> None
         | _ \<Rightarrow> Some (\<lparr>fname = filename, fpos = 0, fappend = False, fpending = []\<rparr>,
                      h\<lparr>files := (files h)(filename \<mapsto> Regular [])\<rparr>))
      else if accessmode = ''a+b'' then
        (case files h filename of
           Some (Directory n) \<Rightarrow> None
         | Some (Regular bs) \<Rightarrow>
             Some (\<lparr>fname = filename,
                    fpos = (if append_at_end h then length bs else 0),
                    fappend = True, fpending = []\<rparr>, h)
         | None \<Rightarrow>
             Some (\<lparr>fname = filename, fpos = 0, fappend = True, fpending = []\<rparr>,
                   h\<lparr>files := (files h)(filename \<mapsto> Regular [])\<rparr>))
      else None)"

text \<open>
  \<^verbatim>\<open>fseek(file, offset, SEEK_SET)\<close>: \<open>None\<close> is a non-zero return value, which a
  negative offset gets. A position past the end of the file is accepted.
\<close>

definition fseek :: "LLFILE \<Rightarrow> int \<Rightarrow> LLFILE option" where
  "fseek file offset = (if offset < 0 then None else Some (file\<lparr>fpos := nat offset\<rparr>))"

text \<open>
  \<^verbatim>\<open>fread(buffer, 1, n, file)\<close>: the bytes put into the buffer (their number is the
  return value) and the stream, moved past them. Nothing is read at or past the end
  of the file, nothing from a directory, and nothing for a count above \<^verbatim>\<open>SSIZE_MAX\<close>,
  which the operating system refuses.
\<close>

definition fread :: "nat \<Rightarrow> LLFILE \<Rightarrow> host \<Rightarrow> U8 list \<times> LLFILE" where
  "fread n file h =
     (if SSIZE_MAX < n then ([], file)
      else case files h (fname file) of
             Some (Regular bs) \<Rightarrow>
               (let got = take n (drop (fpos file) bs)
                in (got, file\<lparr>fpos := fpos file + length got\<rparr>))
           | _ \<Rightarrow> ([], file))"

text \<open>
  The content of a file after \<open>src\<close> was written at offset \<open>at\<close>: the bytes before
  and after the written span stay, and a gap between the old end of the file and \<open>at\<close>
  reads as zero bytes.
\<close>

definition overwrite :: "U8 list \<Rightarrow> nat \<Rightarrow> U8 list \<Rightarrow> U8 list" where
  "overwrite bs at src =
     take at bs @ replicate (at - length bs) 0 @ src @ drop (at + length src) bs"

text \<open>
  The write of the operating system on the descriptor of a stream: the volume stores
  what its quota allows of \<open>src\<close>, at the descriptor's position or, for a stream in
  append mode, at the end of the file. The result is the number of bytes stored, the
  stream and the host. Where no byte is stored nothing changes.
\<close>

definition sys_write :: "LLFILE \<Rightarrow> U8 list \<Rightarrow> host \<Rightarrow> nat \<times> LLFILE \<times> host" where
  "sys_write file src h =
     (case files h (fname file) of
        Some (Regular bs) \<Rightarrow>
          (let out = take (quota h) src;
               at = (if fappend file then length bs else fpos file)
           in if out = [] then (0, file, h)
              else (length out,
                    file\<lparr>fpos := at + length out\<rparr>,
                    h\<lparr>files := (files h)(fname file \<mapsto> Regular (overwrite bs at out)),
                      quota := quota h - length out\<rparr>))
      | _ \<Rightarrow> (0, file, h))"

text \<open>
  \<^verbatim>\<open>fwrite(buffer, 1, n, file)\<close> on a stream whose buffer is empty: the return
  value, the stream and the host. The stream is buffered. The whole buffer-sized blocks
  of the request go to the operating system at once, and the call returns short where
  the volume does not take them all; the rest of the request (all of it, where the
  request is smaller than the buffer) stays in the stream's buffer and counts as
  written. A request of no bytes, or of more than \<^verbatim>\<open>SSIZE_MAX\<close> bytes, transfers
  nothing and leaves the stream as it is.
\<close>

definition fwrite :: "U8 list \<Rightarrow> nat \<Rightarrow> LLFILE \<Rightarrow> host \<Rightarrow> nat \<times> LLFILE \<times> host" where
  "fwrite buffer n file h =
     (if SSIZE_MAX < n then (0, file, h)
      else
        (let src = take n buffer;
             direct = length src - length src mod bufsiz h
         in if src = [] then (0, file, h)
            else
              (case sys_write file (take direct src) h of
                 (taken, file1, h1) \<Rightarrow>
                   if taken < direct then (taken, file1, h1)
                   else (length src, file1\<lparr>fpending := drop direct src\<rparr>, h1))))"

text \<open>
  \<^verbatim>\<open>ftell(file)\<close>: the position of the descriptor plus the bytes waiting in the
  buffer, which on a stream in append mode will go to the end of the file.
\<close>

definition ftell :: "LLFILE \<Rightarrow> host \<Rightarrow> nat" where
  "ftell file h =
     (if fpending file = [] then fpos file
      else (if fappend file then
              (case files h (fname file) of Some (Regular bs) \<Rightarrow> length bs | _ \<Rightarrow> fpos file)
            else fpos file) + length (fpending file))"

text \<open>
  \<^verbatim>\<open>fclose(file)\<close>: the bytes waiting in the buffer go to the operating system. The
  first component is the return value, \<open>- 1\<close> (\<^verbatim>\<open>EOF\<close>) where the volume did not take
  them all.
\<close>

definition fclose :: "LLFILE \<Rightarrow> host \<Rightarrow> int \<times> host" where
  "fclose file h =
     (case sys_write file (fpending file) h of
        (taken, file1, h1) \<Rightarrow> (if taken < length (fpending file) then - 1 else 0, h1))"

subsection \<open>The session object\<close>

record LLFileSystem =
  mFileID :: LLUUID
  mFileType :: EType
  mPosition :: S32
  mBytesRead :: S32
  mMode :: S32

text \<open>The path of a session's store, resolved anew by every member function.\<close>

definition filepath :: "LLUUID \<Rightarrow> EType \<Rightarrow> host \<Rightarrow> string" where
  "filepath file_id file_type h = metaDataToFilepath h file_id file_type ''''"

text \<open>The constructor.\<close>

definition LLFileSystem_new :: "LLUUID \<Rightarrow> EType \<Rightarrow> S32 \<Rightarrow> host \<Rightarrow> LLFileSystem \<times> host" where
  "LLFileSystem_new file_id file_type mode h =
     (let s = \<lparr>mFileID = file_id, mFileType = file_type, mPosition = 0, mBytesRead = 0,
               mMode = mode\<rparr>
      in if mode = READ then
           (let filename = filepath file_id file_type h;
                exists = fileExists filename h
            in if exists then (s, updateFileAccessTime filename h) else (s, h))
         else (s, h))"

definition getExists :: "LLUUID \<Rightarrow> EType \<Rightarrow> host \<Rightarrow> bool" where
  "getExists file_id file_type h =
     (let filename = filepath file_id file_type h
      in case LLFile_stat filename h of
           Some file_stat \<Rightarrow> S_ISREG file_stat \<and> st_size file_stat > 0
         | None \<Rightarrow> False)"

definition removeFile :: "LLUUID \<Rightarrow> EType \<Rightarrow> int \<Rightarrow> host \<Rightarrow> bool \<times> host" where
  "removeFile file_id file_type suppress_error h =
     (let filename = filepath file_id file_type h;
          (rc, h1) = LLFile_remove filename suppress_error h
      in (True, h1))"

definition renameFile :: "LLUUID \<Rightarrow> EType \<Rightarrow> LLUUID \<Rightarrow> EType \<Rightarrow> host \<Rightarrow> bool \<times> host" where
  "renameFile old_file_id old_file_type new_file_id new_file_type h =
     (let old_filename = filepath old_file_id old_file_type h;
          new_filename = filepath new_file_id new_file_type h;
          (removed, h1) = removeFile new_file_id new_file_type ENOENT h;
          (rc, h2) = LLFile_rename old_filename new_filename h1
      in if rc \<noteq> 0 then (True, LL_WARNS ''Failed to rename'' h2) else (True, h2))"

text \<open>The size is narrowed from \<^verbatim>\<open>st_size\<close> to \<^verbatim>\<open>S32\<close>.\<close>

definition getFileSize :: "LLUUID \<Rightarrow> EType \<Rightarrow> host \<Rightarrow> S32" where
  "getFileSize file_id file_type h =
     (let filename = filepath file_id file_type h
      in case LLFile_stat filename h of
           Some file_stat \<Rightarrow> of_nat (st_size file_stat)
         | None \<Rightarrow> 0)"

definition getSize :: "LLFileSystem \<Rightarrow> host \<Rightarrow> S32" where
  "getSize s h = getFileSize (mFileID s) (mFileType s) h"

definition getMaxSize :: S32 where
  "getMaxSize = of_nat INT_MAX"

text \<open>
  \<^verbatim>\<open>read(buffer, bytes)\<close>: the result, the bytes put into the buffer, the session
  and the host. Where \<^verbatim>\<open>fseek\<close> fails the function returns without closing the stream.
\<close>

definition read :: "LLFileSystem \<Rightarrow> S32 \<Rightarrow> host \<Rightarrow> bool \<times> U8 list \<times> LLFileSystem \<times> host" where
  "read s bytes h =
     (let filename = filepath (mFileID s) (mFileType s) h
      in case LLFile_fopen filename ''rb'' h of
           None \<Rightarrow> (False, [], s, h)
         | Some (file, h1) \<Rightarrow>
             (case fseek file (sint (mPosition s)) of
                None \<Rightarrow> (False, [], s, h1)
              | Some file1 \<Rightarrow>
                  (let (got, file2) = fread (size_t bytes) file1 h1;
                       s1 = s\<lparr>mBytesRead := of_nat (length got)\<rparr>;
                       (closed, h2) = fclose file2 h1;
                       s2 = s1\<lparr>mPosition := mPosition s1 + mBytesRead s1\<rparr>
                   in (mBytesRead s2 \<noteq> 0, got, s2, h2))))"

definition getLastBytesRead :: "LLFileSystem \<Rightarrow> S32" where
  "getLastBytesRead s = mBytesRead s"

definition eof :: "LLFileSystem \<Rightarrow> host \<Rightarrow> bool" where
  "eof s h = (sint (getSize s h) \<le> sint (mPosition s))"

text \<open>
  The four lines every branch of \<^verbatim>\<open>write\<close> runs on its open stream:
  \<^verbatim>\<open>fwrite\<close>, \<^verbatim>\<open>mPosition = ftell(ofs)\<close>, \<^verbatim>\<open>fclose(ofs)\<close>, whose result is
  dropped, and \<^verbatim>\<open>success = (bytes_written == bytes)\<close>. The second component of the
  result is the number of bytes the volume stored between the first line and the last.
\<close>

definition write_stream ::
  "LLFileSystem \<Rightarrow> U8 list \<Rightarrow> S32 \<Rightarrow> LLFILE \<Rightarrow> host \<Rightarrow> bool \<times> nat \<times> LLFileSystem \<times> host" where
  "write_stream s buffer bytes ofs h =
     (let (written, ofs1, h1) = fwrite buffer (size_t bytes) ofs h;
          bytes_written = (of_nat written :: S32);
          s1 = s\<lparr>mPosition := of_nat (ftell ofs1 h1)\<rparr>;
          (closed, h2) = fclose ofs1 h1
      in (bytes_written = bytes, quota h - quota h2, s1, h2))"

text \<open>
  \<^verbatim>\<open>write(buffer, bytes)\<close> (\<open>write\<close> is a keyword of the proof language, hence
  the longer name). The buffer is the memory at the pointer, of which the
  call writes the first \<^verbatim>\<open>bytes\<close> bytes. The result is the C++ return value, the number
  of bytes the volume stored during the call (zero where the call reaches no
  \<^verbatim>\<open>fwrite\<close>), the session and the host.
\<close>

definition write_buffer :: "LLFileSystem \<Rightarrow> U8 list \<Rightarrow> S32 \<Rightarrow> host \<Rightarrow> bool \<times> nat \<times> LLFileSystem \<times> host" where
  "write_buffer s buffer bytes h =
     (let filename = filepath (mFileID s) (mFileType s) h
      in if mMode s = APPEND then
           (case LLFile_fopen filename ''a+b'' h of
              Some (ofs, h1) \<Rightarrow> write_stream s buffer bytes ofs h1
            | None \<Rightarrow> (False, 0, s, h))
         else if mMode s = READ_WRITE then
           (case LLFile_fopen filename ''r+b'' h of
              Some (ofs, h1) \<Rightarrow>
                (case fseek ofs (sint (mPosition s)) of
                   Some ofs1 \<Rightarrow> write_stream s buffer bytes ofs1 h1
                 | None \<Rightarrow> (False, 0, s, h1))
            | None \<Rightarrow>
                (case LLFile_fopen filename ''wb'' h of
                   Some (ofs, h1) \<Rightarrow> write_stream s buffer bytes ofs h1
                 | None \<Rightarrow> (False, 0, s, h)))
         else
           (case LLFile_fopen filename ''wb'' h of
              Some (ofs, h1) \<Rightarrow> write_stream s buffer bytes ofs h1
            | None \<Rightarrow> (False, 0, s, h)))"

definition seek :: "LLFileSystem \<Rightarrow> S32 \<Rightarrow> S32 \<Rightarrow> host \<Rightarrow> bool \<times> LLFileSystem \<times> host" where
  "seek s offset origin h =
     (let origin1 = (if - 1 = origin then mPosition s else origin);
          new_pos = origin1 + offset;
          size = getSize s h
      in if sint new_pos > sint size then
           (False, s\<lparr>mPosition := size\<rparr>, LL_WARNS ''Attempt to seek past end of file'' h)
         else if sint new_pos < 0 then
           (False, s\<lparr>mPosition := 0\<rparr>, LL_WARNS ''Attempt to seek past beginning of file'' h)
         else (True, s\<lparr>mPosition := new_pos\<rparr>, h))"

definition tell :: "LLFileSystem \<Rightarrow> S32" where
  "tell s = mPosition s"

text \<open>The member function \<^verbatim>\<open>rename(new_id, new_type)\<close>.\<close>

definition rename :: "LLFileSystem \<Rightarrow> LLUUID \<Rightarrow> EType \<Rightarrow> host \<Rightarrow> bool \<times> LLFileSystem \<times> host" where
  "rename s new_id new_type h =
     (let (renamed, h1) = renameFile (mFileID s) (mFileType s) new_id new_type h
      in (True, s\<lparr>mFileID := new_id, mFileType := new_type\<rparr>, h1))"

text \<open>The member function \<^verbatim>\<open>remove()\<close>; the suppressed error number defaults to 0.\<close>

definition remove :: "LLFileSystem \<Rightarrow> host \<Rightarrow> bool \<times> host" where
  "remove s h =
     (let (removed, h1) = removeFile (mFileID s) (mFileType s) 0 h
      in (True, h1))"

subsection \<open>Notions of the specification\<close>

text \<open>
  The current size of the byte store at a path, as \<^verbatim>\<open>stat\<close> reports it: zero where
  the path cannot be stat'ed.
\<close>

definition store_size :: "string \<Rightarrow> host \<Rightarrow> nat" where
  "store_size filename h =
     (case LLFile_stat filename h of Some file_stat \<Rightarrow> st_size file_stat | None \<Rightarrow> 0)"

text \<open>The path of the store a session is bound to.\<close>

definition session_path :: "LLFileSystem \<Rightarrow> host \<Rightarrow> string" where
  "session_path s h = filepath (mFileID s) (mFileType s) h"

text \<open>
  Whether \<^verbatim>\<open>write\<close> gets a stream to write to: the open call of the mode's branch
  succeeds and, where the branch positions the stream first, so does \<^verbatim>\<open>fseek\<close>.
\<close>

definition opens_for_write :: "LLFileSystem \<Rightarrow> host \<Rightarrow> bool" where
  "opens_for_write s h =
     (let filename = session_path s h
      in if mMode s = APPEND then LLFile_fopen filename ''a+b'' h \<noteq> None
         else if mMode s = READ_WRITE then
           (case LLFile_fopen filename ''r+b'' h of
              Some (ofs, h1) \<Rightarrow> fseek ofs (sint (mPosition s)) \<noteq> None
            | None \<Rightarrow> LLFile_fopen filename ''wb'' h \<noteq> None)
         else LLFile_fopen filename ''wb'' h \<noteq> None)"

text \<open>
  The bytes a \<^verbatim>\<open>write(buffer, bytes)\<close> call asks its stream to take: the first
  \<^verbatim>\<open>bytes\<close> bytes of the buffer, and none where the count is refused.
\<close>

definition request :: "U8 list \<Rightarrow> S32 \<Rightarrow> U8 list" where
  "request buffer bytes =
     (if SSIZE_MAX < size_t bytes then [] else take (size_t bytes) buffer)"

text \<open>
  The volume stores what the stream took into its buffer: where the buffer-sized blocks
  of the request fit into the quota, so does the whole request. Otherwise the bytes are
  lost when the stream is closed, which \<^verbatim>\<open>write\<close> does not notice.
\<close>

definition flush_complete :: "U8 list \<Rightarrow> S32 \<Rightarrow> host \<Rightarrow> bool" where
  "flush_complete buffer bytes h =
     (let n = length (request buffer bytes)
      in n - n mod bufsiz h \<le> quota h \<longrightarrow> n \<le> quota h)"

text \<open>The host after the volume stored the bytes \<open>data\<close> at offset \<open>at\<close> of a file.\<close>

definition after_store :: "host \<Rightarrow> string \<Rightarrow> U8 list \<Rightarrow> nat \<Rightarrow> U8 list \<Rightarrow> host" where
  "after_store h filename bs at data =
     (if data = [] then h
      else h\<lparr>files := (files h)(filename \<mapsto> Regular (overwrite bs at data)),
             quota := quota h - length data\<rparr>)"

subsection \<open>Sequences of operations\<close>

text \<open>
  The operations of a session that the cursor invariant is about, with their arguments;
  \<open>step\<close> runs one of them and keeps the session and the host (\<^verbatim>\<open>tell\<close> and
  \<^verbatim>\<open>eof\<close> only return a value), \<open>run\<close> runs a sequence on the session a
  constructor call returned.
\<close>

datatype op = Read S32 | Write "U8 list" S32 | Seek S32 S32 | Tell | Eof

fun step :: "op \<Rightarrow> LLFileSystem \<times> host \<Rightarrow> LLFileSystem \<times> host" where
  "step (Read bytes) (s, h) = (case read s bytes h of (ok, got, s', h') \<Rightarrow> (s', h'))"
| "step (Write buffer bytes) (s, h) =
     (case write_buffer s buffer bytes h of (ok, written, s', h') \<Rightarrow> (s', h'))"
| "step (Seek offset origin) (s, h) = (case seek s offset origin h of (ok, s', h') \<Rightarrow> (s', h'))"
| "step Tell (s, h) = (let position = tell s in (s, h))"
| "step Eof (s, h) = (let at_end = eof s h in (s, h))"

fun run :: "op list \<Rightarrow> LLFileSystem \<times> host \<Rightarrow> LLFileSystem \<times> host" where
  "run [] st = st"
| "run (x # xs) st = run xs (step x st)"

text \<open>The invariant: the cursor is between 0 and the current size of the store.\<close>

definition cursor_in_store :: "LLFileSystem \<times> host \<Rightarrow> bool" where
  "cursor_in_store st =
     (case st of (s, h) \<Rightarrow>
        0 \<le> sint (mPosition s) \<and> sint (mPosition s) \<le> int (store_size (session_path s h) h))"

text \<open>The current size of the store the session is bound to.\<close>

definition current_size :: "LLFileSystem \<times> host \<Rightarrow> nat" where
  "current_size st = (case st of (s, h) \<Rightarrow> store_size (session_path s h) h)"

text \<open>
  A sequence is admissible from a state where the store is no larger than
  \<^verbatim>\<open>getMaxSize()\<close> in every state it goes through and the volume stores what every
  write of the sequence left in its stream.
\<close>

fun flushes :: "op \<Rightarrow> LLFileSystem \<times> host \<Rightarrow> bool" where
  "flushes (Write buffer bytes) (s, h) = flush_complete buffer bytes h"
| "flushes x st = True"

fun admissible :: "op list \<Rightarrow> LLFileSystem \<times> host \<Rightarrow> bool" where
  "admissible [] st = (current_size st \<le> INT_MAX)"
| "admissible (x # xs) st =
     (current_size st \<le> INT_MAX \<and> flushes x st \<and> admissible xs (step x st))"

subsection \<open>Example host and sessions\<close>

text \<open>
  A cache volume with a store \<open>A\<close> holding the bytes of \<open>foo\<close>, an empty store \<open>E\<close>,
  and a directory where the store \<open>D\<close> would be.
\<close>

definition host0 :: host where
  "host0 = \<lparr>metaDataToFilepath = (\<lambda>id_str file_type extra_info. ''cache/'' @ id_str),
            files = Map.empty(''cache/A'' \<mapsto> Regular [102, 111, 111],
                              ''cache/E'' \<mapsto> Regular [],
                              ''cache/D'' \<mapsto> Directory 4096),
            quota = 1048576, bufsiz = 4096, append_at_end = False, dir_opens_rb = True,
            access_log = [], warnings = []\<rparr>"

text \<open>
  A volume with a store \<open>G\<close> of \<^verbatim>\<open>INT_MAX\<close> zero bytes and a store \<open>H\<close> of two
  bytes more.
\<close>

definition host1 :: host where
  "host1 = \<lparr>metaDataToFilepath = (\<lambda>id_str file_type extra_info. ''cache/'' @ id_str),
            files = Map.empty(''cache/G'' \<mapsto> Regular (replicate 2147483647 0),
                              ''cache/H'' \<mapsto> Regular (replicate 2147483649 0)),
            quota = 1048576, bufsiz = 4096, append_at_end = False, dir_opens_rb = True,
            access_log = [], warnings = []\<rparr>"

definition session0 :: "LLUUID \<Rightarrow> S32 \<Rightarrow> S32 \<Rightarrow> LLFileSystem" where
  "session0 file_id mode pos =
     \<lparr>mFileID = file_id, mFileType = 0, mPosition = pos, mBytesRead = 0, mMode = mode\<rparr>"

text \<open>A sequence with seeks in range and out of range, a write and reads.\<close>

definition ops0 :: "op list" where
  "ops0 = [Seek 2 0, Write [120, 121] 2, Read 5, Seek 9 0, Eof, Seek (- 3) (- 1), Read 1, Tell]"

section \<open>Properties\<close>

subsection \<open>Arithmetic of \<^verbatim>\<open>S32\<close> and \<^verbatim>\<open>size_t\<close>\<close>

lemma sint_S32_range: "- 2147483648 \<le> sint (x :: S32) \<and> sint x \<le> 2147483647"
  using sint_ge [of x] sint_lt [of x] by simp

lemma sint_of_nat_S32: "n \<le> INT_MAX \<Longrightarrow> sint (of_nat n :: S32) = int n"
proof -
  assume "n \<le> INT_MAX"
  then have "signed_take_bit 31 (int n) = int n"
    by (intro signed_take_bit_int_eq_self) (simp_all add: INT_MAX_def)
  moreover have "sint (of_nat n :: S32) = signed_take_bit 31 (int n)"
    using sint_sbintrunc' [where 'a = 32, of "int n"] by simp
  ultimately show ?thesis by simp
qed

lemma sint_add_S32:
  "- 2147483648 \<le> sint a + sint b \<Longrightarrow> sint a + sint b \<le> 2147483647 \<Longrightarrow>
   sint (a + b :: S32) = sint a + sint b"
  by (simp add: sint_word_add signed_take_bit_int_eq_self)

lemma of_nat_S32_eq_0:
  assumes "n \<le> INT_MAX"
  shows "(of_nat n :: S32) = 0 \<longleftrightarrow> n = 0"
proof
  assume "(of_nat n :: S32) = 0"
  then have "sint (of_nat n :: S32) = 0"
    by simp
  then show "n = 0"
    using sint_of_nat_S32 [OF assms] by simp
next
  assume "n = 0"
  then show "(of_nat n :: S32) = 0"
    by simp
qed

lemma uint_size_t: "int (size_t n) = take_bit 64 (sint n)"
proof -
  have "uint (scast n :: 64 word) = take_bit 64 (sint n)"
    by (simp only: scast_eq uint_word_of_int_eq) simp
  then show ?thesis
    by (simp add: size_t_def)
qed

lemma size_t_nonneg: "0 \<le> sint n \<Longrightarrow> size_t n = nat (sint n)"
proof -
  assume nonneg: "0 \<le> sint n"
  have "sint n < 2 ^ 64"
    using sint_lt [of n] by simp
  then have "take_bit 64 (sint n) = sint n"
    using nonneg by (simp only: take_bit_int_eq_self)
  then show ?thesis
    using uint_size_t [of n] by simp
qed

lemma size_t_negative: "sint n < 0 \<Longrightarrow> SSIZE_MAX < size_t n"
proof -
  assume neg: "sint n < 0"
  have "take_bit 64 (sint n) = sint n mod 2 ^ 64"
    by (simp add: take_bit_eq_mod)
  also have "sint n mod 2 ^ 64 = (sint n + 2 ^ 64) mod 2 ^ 64"
    by simp
  also have "(sint n + 2 ^ 64) mod 2 ^ 64 = sint n + 2 ^ 64"
    using neg sint_S32_range [of n] by (intro mod_pos_pos_trivial) simp_all
  finally have "int (size_t n) = sint n + 2 ^ 64"
    by (simp add: uint_size_t)
  then have "int SSIZE_MAX < int (size_t n)"
    using sint_S32_range [of n] by (simp add: SSIZE_MAX_def)
  then show ?thesis
    by simp
qed

lemma size_t_SSIZE_MAX: "SSIZE_MAX < size_t n \<longleftrightarrow> sint n < 0"
proof
  assume "SSIZE_MAX < size_t n"
  show "sint n < 0"
  proof (rule ccontr)
    assume "\<not> sint n < 0"
    then have "size_t n = nat (sint n)"
      by (simp add: size_t_nonneg)
    with \<open>SSIZE_MAX < size_t n\<close> sint_S32_range [of n] show False
      unfolding SSIZE_MAX_def by linarith
  qed
qed (rule size_t_negative)

lemma length_request: "length (request buffer bytes) \<le> INT_MAX"
proof (cases "sint bytes < 0")
  case True
  then show ?thesis
    by (simp add: request_def size_t_SSIZE_MAX)
next
  case False
  then have "length (request buffer bytes) \<le> nat (sint bytes)"
    by (simp add: request_def size_t_nonneg size_t_SSIZE_MAX)
  then show ?thesis
    using sint_S32_range [of bytes] unfolding INT_MAX_def by linarith
qed

lemma request_size_t: "length (request buffer bytes) \<le> size_t bytes"
  by (simp add: request_def)

subsection \<open>Size queries\<close>

lemma getFileSize_store_size:
  "getFileSize file_id file_type h = of_nat (store_size (filepath file_id file_type h) h)"
  by (simp add: getFileSize_def store_size_def split: option.splits)

lemma sint_getSize:
  "store_size (session_path s h) h \<le> INT_MAX \<Longrightarrow>
   sint (getSize s h) = int (store_size (session_path s h) h)"
  by (simp add: getSize_def getFileSize_store_size session_path_def sint_of_nat_S32)

lemma store_size_files:
  "store_size p h =
     (case files h p of None \<Rightarrow> 0 | Some (Regular bs) \<Rightarrow> length bs | Some (Directory n) \<Rightarrow> n)"
  by (simp add: store_size_def LLFile_stat_def split: option.splits node.splits)

text \<open>
  Claim C8. \<^verbatim>\<open>getExists\<close> is true exactly when the resolved path names a regular file
  of size greater than zero. A zero-length store does not exist for it, although the size
  query on the same store returns 0.
\<close>

theorem getExists_iff_nonempty_regular:
  "(getExists file_id file_type h \<longleftrightarrow>
      (case files h (filepath file_id file_type h) of
         Some (Regular bs) \<Rightarrow> 0 < length bs
       | _ \<Rightarrow> False))
   \<and> (files h (filepath file_id file_type h) = Some (Regular []) \<longrightarrow>
        \<not> getExists file_id file_type h \<and> getFileSize file_id file_type h = 0)"
  by (simp add: getExists_def getFileSize_def LLFile_stat_def
      split: option.splits node.splits)

theorem getExists_iff_nonempty_regular_witness:
  "files host0 (filepath ''E'' 0 host0) = Some (Regular [])
   \<and> \<not> getExists ''E'' 0 host0 \<and> getFileSize ''E'' 0 host0 = 0
   \<and> getExists ''A'' 0 host0 \<and> \<not> getExists ''D'' 0 host0"
  using getExists_iff_nonempty_regular [of "''E''" 0 host0]
        getExists_iff_nonempty_regular [of "''A''" 0 host0]
        getExists_iff_nonempty_regular [of "''D''" 0 host0]
  by (simp add: host0_def filepath_def)

subsection \<open>Remove and rename\<close>

text \<open>Neither call touches the path resolver.\<close>

lemma LLFile_remove_resolver [simp]:
  "metaDataToFilepath (snd (LLFile_remove filename e h)) = metaDataToFilepath h"
  by (simp add: LLFile_remove_def LL_WARNS_def split: option.splits node.splits)

lemma LLFile_rename_resolver [simp]:
  "metaDataToFilepath (snd (LLFile_rename filename newname h)) = metaDataToFilepath h"
  by (simp add: LLFile_rename_def split: option.splits)

lemma removeFile_resolver [simp]:
  "metaDataToFilepath (snd (removeFile file_id file_type e h)) = metaDataToFilepath h"
  by (simp add: removeFile_def split_def)

lemma renameFile_resolver [simp]:
  "metaDataToFilepath (snd (renameFile old_id old_type new_id new_type h)) = metaDataToFilepath h"
  by (simp add: renameFile_def split_def Let_def LL_WARNS_def)

text \<open>
  Claim C1. \<^verbatim>\<open>removeFile\<close> and \<^verbatim>\<open>renameFile\<close> return true for every input, also
  where the delete or the rename of the operating system fails. \<^verbatim>\<open>removeFile\<close> is the
  system's delete on the resolved path with the caller's suppressed error number.
  \<^verbatim>\<open>renameFile\<close> first deletes the destination's store, suppressing \<^verbatim>\<open>ENOENT\<close>,
  so that no regular file is left there, then renames the old path to the new one, and
  logs a warning where that rename fails.
\<close>

theorem remove_rename_report_success:
  "fst (removeFile file_id file_type suppress_error h)
   \<and> snd (removeFile file_id file_type suppress_error h)
       = snd (LLFile_remove (filepath file_id file_type h) suppress_error h)
   \<and> fst (renameFile old_id old_type new_id new_type h)
   \<and> snd (renameFile old_id old_type new_id new_type h)
       = (let h1 = snd (LLFile_remove (filepath new_id new_type h) ENOENT h);
              (rc, h2) = LLFile_rename (filepath old_id old_type h) (filepath new_id new_type h) h1
          in if rc \<noteq> 0 then LL_WARNS ''Failed to rename'' h2 else h2)
   \<and> (case files (snd (removeFile new_id new_type ENOENT h)) (filepath new_id new_type h) of
         Some (Regular bs) \<Rightarrow> False
       | _ \<Rightarrow> True)
   \<and> (fst (LLFile_remove (filepath file_id file_type h) suppress_error h) \<noteq> 0
        \<longrightarrow> fst (removeFile file_id file_type suppress_error h))
   \<and> (fst (LLFile_rename (filepath old_id old_type h) (filepath new_id new_type h)
              (snd (LLFile_remove (filepath new_id new_type h) ENOENT h))) \<noteq> 0
        \<longrightarrow> fst (renameFile old_id old_type new_id new_type h))"
  by (simp add: removeFile_def renameFile_def split_def Let_def LLFile_remove_def LL_WARNS_def
      split: option.splits node.splits)

theorem remove_rename_report_success_witness:
  "fst (LLFile_remove (filepath ''missing'' 0 host0) 0 host0) \<noteq> 0
   \<and> fst (removeFile ''missing'' 0 0 host0)
   \<and> fst (LLFile_rename (filepath ''missing'' 0 host0) (filepath ''A'' 0 host0)
            (snd (LLFile_remove (filepath ''A'' 0 host0) ENOENT host0))) \<noteq> 0
   \<and> fst (renameFile ''missing'' 0 ''A'' 0 host0)
   \<and> files (snd (renameFile ''missing'' 0 ''A'' 0 host0)) ''cache/A'' = None
   \<and> warnings (snd (renameFile ''missing'' 0 ''A'' 0 host0)) = [''Failed to rename'']
   \<and> fst (renameFile ''A'' 0 ''E'' 0 host0)
   \<and> files (snd (renameFile ''A'' 0 ''E'' 0 host0)) ''cache/E'' = Some (Regular [102, 111, 111])
   \<and> files (snd (renameFile ''A'' 0 ''E'' 0 host0)) ''cache/A'' = None
   \<and> warnings (snd (renameFile ''A'' 0 ''E'' 0 host0)) = []"
  using remove_rename_report_success [where file_id = "''missing''" and file_type = 0
          and suppress_error = 0 and h = host0 and old_id = "''missing''" and old_type = 0
          and new_id = "''A''" and new_type = 0]
        remove_rename_report_success [where file_id = "''missing''" and file_type = 0
          and suppress_error = 0 and h = host0 and old_id = "''A''" and old_type = 0
          and new_id = "''E''" and new_type = 0]
  by (simp add: host0_def filepath_def LLFile_remove_def LLFile_rename_def LL_WARNS_def ENOENT_def
      split_def Let_def)

text \<open>
  Claim C10. The member function \<^verbatim>\<open>rename\<close> returns true and rebinds the session to
  the new id and type whatever \<^verbatim>\<open>renameFile\<close> did, also where the rename of the
  operating system failed: cursor, counter and mode stay, and the session's path and size
  are those of the new identity.
\<close>

theorem rename_rebinds_identity:
  "case rename s new_id new_type h of (ok, s', h') \<Rightarrow>
     ok \<and> mFileID s' = new_id \<and> mFileType s' = new_type
     \<and> mPosition s' = mPosition s \<and> mBytesRead s' = mBytesRead s \<and> mMode s' = mMode s
     \<and> h' = snd (renameFile (mFileID s) (mFileType s) new_id new_type h)
     \<and> session_path s' h' = filepath new_id new_type h
     \<and> getSize s' h' = getFileSize new_id new_type h'"
  by (simp add: rename_def split_def session_path_def getSize_def filepath_def)

theorem rename_rebinds_identity_witness:
  "fst (LLFile_rename (filepath ''missing'' 0 host0) (filepath ''B'' 0 host0)
          (snd (removeFile ''B'' 0 ENOENT host0))) \<noteq> 0
   \<and> (case rename (session0 ''missing'' READ_WRITE 0) ''B'' 0 host0 of (ok, s', h') \<Rightarrow>
         ok \<and> mFileID s' = ''B'' \<and> mFileType s' = 0 \<and> session_path s' h' = ''cache/B''
         \<and> files h' ''cache/B'' = None \<and> sint (getSize s' h') = 0
         \<and> fst (read s' 4 h') = False
         \<and> (case write_buffer s' [120] 1 h' of (ok2, n, s2, h2) \<Rightarrow>
               ok2 \<and> files h2 ''cache/B'' = Some (Regular [120])))"
  using rename_rebinds_identity [where s = "session0 ''missing'' READ_WRITE 0"
          and new_id = "''B''" and new_type = 0 and h = host0]
  by (simp add: host0_def session0_def filepath_def rename_def renameFile_def removeFile_def
      LLFile_remove_def LLFile_rename_def LL_WARNS_def ENOENT_def split_def Let_def
      session_path_def getSize_def getFileSize_def LLFile_stat_def read_def LLFile_fopen_def
      write_buffer_def write_stream_def fwrite_def sys_write_def fclose_def fseek_def
      ftell_def overwrite_def fread_def size_t_def SSIZE_MAX_def READ_WRITE_def APPEND_def)

subsection \<open>Streams\<close>

lemma length_overwrite:
  "length (overwrite bs at src) = max (length bs) (at + length src)"
  by (simp add: overwrite_def)

lemma overwrite_nth_before:
  "i < at \<Longrightarrow> i < length bs \<Longrightarrow> overwrite bs at src ! i = bs ! i"
  by (simp add: overwrite_def nth_append)

lemma overwrite_nth_after:
  assumes "at + length src \<le> i" and "i < length bs"
  shows "overwrite bs at src ! i = bs ! i"
proof -
  have "at \<le> length bs" and "\<not> i < at" and "\<not> i - at < length src"
    using assms by simp_all
  moreover have "at + length src + (i - at - length src) = i"
    using assms by simp
  ultimately show ?thesis
    using assms by (simp add: overwrite_def nth_append min_absorb2)
qed

lemma overwrite_front:
  "length (take at bs @ replicate (at - length bs) (0 :: U8)) = at"
  by (simp add: min_def)

lemma overwrite_nth_written:
  assumes "j < length src"
  shows "overwrite bs at src ! (at + j) = src ! j"
proof -
  define front where "front = take at bs @ replicate (at - length bs) (0 :: U8)"
  have "length front = at"
    unfolding front_def by (rule overwrite_front)
  moreover have "overwrite bs at src = front @ (src @ drop (at + length src) bs)"
    by (simp add: overwrite_def front_def)
  ultimately show ?thesis
    using assms by (simp add: nth_append)
qed

lemma overwrite_at_end: "overwrite bs (length bs) src = bs @ src"
  by (simp add: overwrite_def)

lemma overwrite_adjacent:
  "overwrite (overwrite bs at xs) (at + length xs) ys = overwrite bs at (xs @ ys)"
proof -
  define front where "front = take at bs @ replicate (at - length bs) (0 :: U8)"
  define rest where "rest = drop (at + length xs) bs"
  have front: "length front = at"
    unfolding front_def by (rule overwrite_front)
  have ov: "overwrite bs at xs = (front @ xs) @ rest"
    by (simp add: overwrite_def front_def rest_def)
  have len: "length (front @ xs) = at + length xs"
    by (simp add: front)
  have "overwrite ((front @ xs) @ rest) (at + length xs) ys
        = (front @ xs) @ ys @ drop (length ys) rest"
    unfolding overwrite_def using len by (simp add: add.commute)
  moreover have "drop (length ys) rest = drop (at + length (xs @ ys)) bs"
    by (simp add: rest_def add.commute add.left_commute)
  moreover have "overwrite bs at (xs @ ys) = front @ (xs @ ys) @ drop (at + length (xs @ ys)) bs"
    by (simp add: overwrite_def front_def)
  ultimately show ?thesis
    by (simp add: ov)
qed

lemma S32_eq_iff:
  assumes "0 \<le> sint bytes" and "n \<le> nat (sint bytes)"
  shows "((of_nat n :: S32) = bytes) \<longleftrightarrow> (int n = sint bytes)"
proof
  have "n \<le> INT_MAX"
    using assms(2) sint_S32_range [of bytes] unfolding INT_MAX_def by linarith
  then have "sint (of_nat n :: S32) = int n"
    by (rule sint_of_nat_S32)
  moreover assume "(of_nat n :: S32) = bytes"
  ultimately show "int n = sint bytes"
    by simp
next
  assume "int n = sint bytes"
  then have "(of_int (int n) :: S32) = of_int (sint bytes)"
    by (simp only:)
  then show "(of_nat n :: S32) = bytes"
    by simp
qed

text \<open>A count is equal to the requested \<^verbatim>\<open>S32\<close> count exactly when the numbers are.\<close>

lemma count_eq_iff:
  assumes "n \<le> length (request buffer bytes)"
  shows "((of_nat n :: S32) = bytes) \<longleftrightarrow> (int n = sint bytes)"
proof (cases "sint bytes < 0")
  case True
  then have "n = 0"
    using assms by (simp add: request_def size_t_SSIZE_MAX)
  with True show ?thesis
    by auto
next
  case False
  have "length (request buffer bytes) \<le> size_t bytes"
    by (rule request_size_t)
  then have "n \<le> nat (sint bytes)"
    using assms False by (simp add: size_t_nonneg)
  with False show ?thesis
    by (intro S32_eq_iff) simp_all
qed

lemma fwrite_request:
  "fwrite buffer (size_t bytes) file h =
     (let src = request buffer bytes;
          direct = length src - length src mod bufsiz h
      in if src = [] then (0, file, h)
         else
           (case sys_write file (take direct src) h of
              (taken, file1, h1) \<Rightarrow>
                if taken < direct then (taken, file1, h1)
                else (length src, file1\<lparr>fpending := drop direct src\<rparr>, h1)))"
  by (simp add: fwrite_def request_def Let_def)

lemma after_store_simps [simp]:
  "metaDataToFilepath (after_store h p bs at data) = metaDataToFilepath h"
  "bufsiz (after_store h p bs at data) = bufsiz h"
  "append_at_end (after_store h p bs at data) = append_at_end h"
  "dir_opens_rb (after_store h p bs at data) = dir_opens_rb h"
  "warnings (after_store h p bs at data) = warnings h"
  "quota (after_store h p bs at data) = quota h - length data"
  "q \<noteq> p \<Longrightarrow> files (after_store h p bs at data) q = files h q"
  by (simp_all add: after_store_def)

lemma after_store_file:
  "files h p = Some (Regular bs) \<Longrightarrow>
   files (after_store h p bs at data) p
     = Some (Regular (if data = [] then bs else overwrite bs at data))"
  by (simp add: after_store_def)

lemma sys_write_regular:
  assumes "files h (fname f) = Some (Regular bs)"
  shows "sys_write f src h =
     (length (take (quota h) src),
      (if take (quota h) src = [] then f
       else f\<lparr>fpos := (if fappend f then length bs else fpos f) + length (take (quota h) src)\<rparr>),
      after_store h (fname f) bs (if fappend f then length bs else fpos f) (take (quota h) src))"
  using assms by (simp add: sys_write_def after_store_def Let_def)

lemma sys_write_nothing: "sys_write f [] h = (0, f, h)"
  by (simp add: sys_write_def split: option.splits node.splits)

lemma write_stream_nothing:
  assumes "request buffer bytes = []" and "fpending ofs = []"
  shows "write_stream s buffer bytes ofs h =
           (0 = bytes, 0, s\<lparr>mPosition := of_nat (fpos ofs)\<rparr>, h)"
  using assms
  by (simp add: write_stream_def fwrite_request ftell_def fclose_def sys_write_nothing)

lemma write_stream_short:
  assumes "files h (fname ofs) = Some (Regular bs)" and "fpending ofs = []"
    and "quota h < length (request buffer bytes) - length (request buffer bytes) mod bufsiz h"
  shows "write_stream s buffer bytes ofs h =
           (of_nat (quota h) = bytes, quota h,
            s\<lparr>mPosition := of_nat (if quota h = 0 then fpos ofs
                                   else (if fappend ofs then length bs else fpos ofs) + quota h)\<rparr>,
            after_store h (fname ofs) bs (if fappend ofs then length bs else fpos ofs)
              (take (quota h) (request buffer bytes)))"
proof -
  define src where "src = request buffer bytes"
  define direct where "direct = length src - length src mod bufsiz h"
  define at where "at = (if fappend ofs then length bs else fpos ofs)"
  have short: "quota h < direct" and le: "direct \<le> length src"
    using assms(3) by (simp_all add: src_def direct_def)
  then have src: "src \<noteq> []"
    by auto
  have out: "take (quota h) (take direct src) = take (quota h) src"
    using short by (simp add: min_absorb1)
  have len: "length (take (quota h) src) = quota h"
    using short le by simp
  have sw: "sys_write ofs (take direct src) h =
      (quota h, (if quota h = 0 then ofs else ofs\<lparr>fpos := at + quota h\<rparr>),
       after_store h (fname ofs) bs at (take (quota h) src))"
    using sys_write_regular [OF assms(1), of "take direct src"] short le src
    by (simp add: out len at_def del: take_take)
  have fw: "fwrite buffer (size_t bytes) ofs h =
      (quota h, (if quota h = 0 then ofs else ofs\<lparr>fpos := at + quota h\<rparr>),
       after_store h (fname ofs) bs at (take (quota h) src))"
    using src short
    by (simp add: fwrite_request Let_def src_def [symmetric] direct_def [symmetric] sw)
  show ?thesis
    using assms(2) len
    by (simp add: write_stream_def fw ftell_def fclose_def sys_write_nothing
        src_def [symmetric] at_def [symmetric])
qed

lemma after_store_twice:
  "after_store (after_store h p bs at xs) p (if xs = [] then bs else overwrite bs at xs)
     (at + length xs) ys
   = after_store h p bs at (xs @ ys)"
  by (simp add: after_store_def overwrite_adjacent)

lemma write_stream_buffered:
  assumes "files h (fname ofs) = Some (Regular bs)" and "fpending ofs = []"
    and "request buffer bytes \<noteq> []"
    and "length (request buffer bytes) - length (request buffer bytes) mod bufsiz h \<le> quota h"
  shows "write_stream s buffer bytes ofs h =
           (of_nat (length (request buffer bytes)) = bytes,
            length (take (quota h) (request buffer bytes)),
            s\<lparr>mPosition := of_nat ((if fappend ofs then length bs else fpos ofs)
                                   + length (request buffer bytes))\<rparr>,
            after_store h (fname ofs) bs (if fappend ofs then length bs else fpos ofs)
              (take (quota h) (request buffer bytes)))"
proof -
  define src where "src = request buffer bytes"
  define direct where "direct = length src - length src mod bufsiz h"
  define at where "at = (if fappend ofs then length bs else fpos ofs)"
  define d where "d = take direct src"
  define pend where "pend = drop direct src"
  define f1 where "f1 = (if d = [] then ofs else ofs\<lparr>fpos := at + direct\<rparr>)"
  define h1 where "h1 = after_store h (fname ofs) bs at d"
  define bs1 where "bs1 = (if d = [] then bs else overwrite bs at d)"
  define o2 where "o2 = take (quota h - direct) pend"
  have src: "src \<noteq> []" and fits: "direct \<le> quota h" and le: "direct \<le> length src"
    using assms(3,4) by (simp_all add: src_def direct_def)
  have len_d: "length d = direct"
    using le by (simp add: d_def)
  have len_pend: "length pend = length src - direct"
    by (simp add: pend_def)
  have split: "take (quota h) src = d @ o2"
  proof -
    have "quota h = direct + (quota h - direct)"
      using fits by simp
    then have "take (quota h) src = take (direct + (quota h - direct)) src"
      by simp
    also have "\<dots> = d @ o2"
      unfolding d_def o2_def pend_def by (rule take_add)
    finally show ?thesis .
  qed
  have sw1: "sys_write ofs d h = (direct, f1, h1)"
    using sys_write_regular [OF assms(1), of d] fits len_d
    by (simp add: f1_def h1_def at_def)
  have fw: "fwrite buffer (size_t bytes) ofs h = (length src, f1\<lparr>fpending := pend\<rparr>, h1)"
    using src
    by (simp add: fwrite_request Let_def src_def [symmetric] direct_def [symmetric]
        d_def [symmetric] pend_def [symmetric] sw1)
  have name1: "fname f1 = fname ofs" and app1: "fappend f1 = fappend ofs"
    by (simp_all add: f1_def)
  have file1: "files h1 (fname ofs) = Some (Regular bs1)"
    unfolding h1_def bs1_def using assms(1) by (rule after_store_file)
  have at2: "(if fappend ofs then length bs1 else fpos f1) = at + direct"
    using len_d by (auto simp add: bs1_def f1_def at_def length_overwrite)
  have tell: "ftell (f1\<lparr>fpending := pend\<rparr>) h1 = at + length src"
  proof (cases "pend = []")
    case True
    then have "direct = length src"
      using len_pend le by simp
    moreover from this have "d \<noteq> []"
      using src len_d by auto
    ultimately show ?thesis
      using True by (simp add: ftell_def f1_def)
  next
    case False
    have "ftell (f1\<lparr>fpending := pend\<rparr>) h1
          = (if fappend ofs then length bs1 else fpos f1) + length pend"
      using False by (simp add: ftell_def name1 app1 file1)
    then show ?thesis
      using le by (simp add: at2 len_pend)
  qed
  define f2 where "f2 = f1\<lparr>fpending := pend\<rparr>"
  have f2: "fname f2 = fname ofs" "fappend f2 = fappend ofs" "fpos f2 = fpos f1"
      "fpending f2 = pend"
    by (simp_all add: f2_def name1 app1)
  have file2: "files h1 (fname f2) = Some (Regular bs1)"
    using file1 by (simp add: f2)
  have quota1: "quota h1 = quota h - direct"
    by (simp add: h1_def len_d)
  have "snd (snd (sys_write f2 pend h1))
        = after_store h1 (fname f2) bs1 (if fappend f2 then length bs1 else fpos f2)
            (take (quota h1) pend)"
    by (simp add: sys_write_regular [OF file2])
  also have "\<dots> = after_store h1 (fname ofs) bs1 (at + direct) o2"
    by (simp only: f2 at2 quota1 o2_def)
  also have "\<dots> = after_store h (fname ofs) bs at (d @ o2)"
    unfolding h1_def bs1_def using after_store_twice [of h "fname ofs" bs at d o2]
    by (simp add: len_d)
  finally have close: "snd (fclose f2 h1) = after_store h (fname ofs) bs at (take (quota h) src)"
    by (simp add: fclose_def split_def f2 split)
  have "length (take (quota h) src) \<le> quota h"
    by simp
  then have stored: "quota h - (quota h - length (take (quota h) src))
        = length (take (quota h) src)"
    by simp
  show ?thesis
    using stored
    by (simp add: write_stream_def fw tell split_def
        close [unfolded f2_def] src_def [symmetric] at_def [symmetric]
        del: of_nat_add length_take)
qed

lemma write_stream_regular:
  assumes "files h (fname ofs) = Some (Regular bs)" and "fpending ofs = []"
  shows "write_stream s buffer bytes ofs h =
     (let src = request buffer bytes;
          direct = length src - length src mod bufsiz h;
          at = (if fappend ofs then length bs else fpos ofs);
          ret = (if direct \<le> quota h then length src else quota h)
      in (of_nat ret = bytes,
          length (take (quota h) src),
          s\<lparr>mPosition := of_nat (if ret = 0 then fpos ofs else at + ret)\<rparr>,
          after_store h (fname ofs) bs at (take (quota h) src)))"
proof -
  define src where "src = request buffer bytes"
  define direct where "direct = length src - length src mod bufsiz h"
  consider (nothing) "src = []" | (buffered) "src \<noteq> []" "direct \<le> quota h"
    | (short) "quota h < direct"
    by fastforce
  then show ?thesis
  proof cases
    case nothing
    then show ?thesis
      using write_stream_nothing [of buffer bytes ofs s h] assms(2)
      by (simp add: src_def after_store_def Let_def)
  next
    case buffered
    then show ?thesis
      using write_stream_buffered [OF assms, of buffer bytes s]
      by (simp add: src_def direct_def Let_def del: of_nat_add length_take)
  next
    case short
    then have "src \<noteq> []" and "length (take (quota h) src) = quota h"
      by (auto simp add: direct_def)
    with short show ?thesis
      using write_stream_short [OF assms, of buffer bytes s]
      by (simp add: src_def direct_def Let_def del: of_nat_add length_take)
  qed
qed

lemma fopen_regular:
  assumes "LLFile_fopen p accessmode h = Some (ofs, h1)"
    and "accessmode = ''a+b'' \<or> accessmode = ''wb'' \<or> accessmode = ''r+b''"
  shows "fname ofs = p \<and> fpending ofs = [] \<and> metaDataToFilepath h1 = metaDataToFilepath h
         \<and> quota h1 = quota h \<and> bufsiz h1 = bufsiz h
         \<and> (\<forall>q. q \<noteq> p \<longrightarrow> files h1 q = files h q)
         \<and> (case files h1 p of
               Some (Regular bs) \<Rightarrow> fpos ofs \<le> length bs \<and> length bs \<le> store_size p h
             | _ \<Rightarrow> False)"
  using assms
  by (auto simp add: LLFile_fopen_def store_size_def LLFile_stat_def
      split: option.splits node.splits if_splits)

text \<open>Where a write gets a stream, the stream is on a regular file.\<close>

lemma write_buffer_opened:
  assumes "opens_for_write s h"
  shows "\<exists>ofs h1 bs. write_buffer s buffer bytes h = write_stream s buffer bytes ofs h1
           \<and> files h1 (fname ofs) = Some (Regular bs) \<and> fpending ofs = []
           \<and> quota h1 = quota h \<and> bufsiz h1 = bufsiz h
           \<and> fname ofs = session_path s h"
proof -
  define p where "p = filepath (mFileID s) (mFileType s) h"
  have p: "session_path s h = p"
    by (simp add: session_path_def p_def)
  have via: "\<exists>ofs h1 bs. write_stream s buffer bytes ofs0 h0 = write_stream s buffer bytes ofs h1
           \<and> files h1 (fname ofs) = Some (Regular bs) \<and> fpending ofs = []
           \<and> quota h1 = quota h \<and> bufsiz h1 = bufsiz h \<and> fname ofs = p"
    if "LLFile_fopen p accessmode h = Some (ofs0, h0)"
      and "accessmode = ''a+b'' \<or> accessmode = ''wb''" for accessmode ofs0 h0
  proof -
    from fopen_regular [OF that(1)] that(2)
    obtain bs where "fname ofs0 = p" "fpending ofs0 = []" "quota h0 = quota h"
        "bufsiz h0 = bufsiz h" "files h0 p = Some (Regular bs)"
      by (auto split: option.splits node.splits)
    then show ?thesis
      by auto
  qed
  show ?thesis
  proof (cases "mMode s = APPEND")
    case True
    with assms obtain ofs0 h0 where op: "LLFile_fopen p ''a+b'' h = Some (ofs0, h0)"
      by (auto simp add: opens_for_write_def session_path_def p_def Let_def)
    with True have "write_buffer s buffer bytes h = write_stream s buffer bytes ofs0 h0"
      by (simp add: write_buffer_def p_def)
    with via [OF op] show ?thesis
      by (simp add: p)
  next
    case not_append: False
    show ?thesis
    proof (cases "mMode s = READ_WRITE \<and> LLFile_fopen p ''r+b'' h \<noteq> None")
      case True
      then obtain bs where bs: "files h p = Some (Regular bs)"
        by (auto simp add: LLFile_fopen_def split: option.splits node.splits)
      have seek: "0 \<le> sint (mPosition s)"
        using assms True not_append bs
        by (auto simp add: opens_for_write_def session_path_def p_def [symmetric] Let_def
            LLFile_fopen_def fseek_def split: if_splits)
      define ofs where
        "ofs = \<lparr>fname = p, fpos = nat (sint (mPosition s)), fappend = False, fpending = []\<rparr>"
      have "write_buffer s buffer bytes h = write_stream s buffer bytes ofs h"
        using True not_append bs seek
        by (simp add: write_buffer_def p_def [symmetric] LLFile_fopen_def fseek_def ofs_def)
      moreover have "files h (fname ofs) = Some (Regular bs)" "fpending ofs = []"
          "fname ofs = session_path s h"
        using bs by (simp_all add: ofs_def p)
      ultimately show ?thesis
        by blast
    next
      case False
      with assms not_append obtain ofs0 h0 where op: "LLFile_fopen p ''wb'' h = Some (ofs0, h0)"
        by (auto simp add: opens_for_write_def session_path_def p_def Let_def
            split: option.splits)
      with False not_append
      have "write_buffer s buffer bytes h = write_stream s buffer bytes ofs0 h0"
        by (auto simp add: write_buffer_def p_def Let_def split: option.splits)
      with via [OF op] show ?thesis
        by (simp add: p)
    qed
  qed
qed

lemma write_buffer_not_opened:
  "\<not> opens_for_write s h \<Longrightarrow> \<not> fst (write_buffer s buffer bytes h)
     \<and> fst (snd (write_buffer s buffer bytes h)) = 0"
  by (auto simp add: opens_for_write_def write_buffer_def session_path_def Let_def
      split: option.splits if_splits)

lemma write_stream_exact:
  assumes "files h (fname ofs) = Some (Regular bs)" and "fpending ofs = []"
    and "flush_complete buffer bytes h"
  shows "fst (write_stream s buffer bytes ofs h)
         \<longleftrightarrow> int (fst (snd (write_stream s buffer bytes ofs h))) = sint bytes"
proof -
  define src where "src = request buffer bytes"
  define direct where "direct = length src - length src mod bufsiz h"
  define ret where "ret = (if direct \<le> quota h then length src else quota h)"
  have stored: "length (take (quota h) src) = ret"
    using assms(3) by (auto simp add: flush_complete_def Let_def src_def direct_def ret_def)
  have "ret \<le> length (request buffer bytes)"
    by (auto simp add: ret_def direct_def src_def)
  then have "((of_nat ret :: S32) = bytes) \<longleftrightarrow> (int ret = sint bytes)"
    by (rule count_eq_iff)
  then show ?thesis
    using stored
    by (simp add: write_stream_regular [OF assms(1,2)] Let_def src_def [symmetric]
        direct_def [symmetric] ret_def [symmetric] del: length_take)
qed

lemma fclose_nothing: "fpending f = [] \<Longrightarrow> fclose f h = (0, h)"
  by (simp add: fclose_def sys_write_nothing)

lemma fread_effect:
  "case fread (size_t bytes) f h of (got, f') \<Rightarrow>
     fpending f' = fpending f \<and> length got \<le> INT_MAX
     \<and> length got \<le> store_size (fname f) h - fpos f"
proof (cases "sint bytes < 0")
  case True
  then show ?thesis
    by (simp add: fread_def size_t_SSIZE_MAX)
next
  case False
  then have "size_t bytes \<le> INT_MAX"
    using sint_S32_range [of bytes] by (simp add: size_t_nonneg INT_MAX_def)
  moreover have "length (take (size_t bytes) xs) \<le> size_t bytes" for xs :: "U8 list"
    by simp
  ultimately have "length (take (size_t bytes) xs) \<le> INT_MAX" for xs :: "U8 list"
    using order_trans by blast
  then show ?thesis
    by (simp add: fread_def store_size_files Let_def split: option.splits node.splits
        del: length_take) simp
qed

text \<open>What \<^verbatim>\<open>read\<close> does to the session and the host, whatever the store is.\<close>

lemma read_effect:
  "case read s bytes h of (ok, got, s', h') \<Rightarrow>
     h' = h \<and> mFileID s' = mFileID s \<and> mFileType s' = mFileType s \<and> mMode s' = mMode s
     \<and> mPosition s' = mPosition s + of_nat (length got)
     \<and> (ok \<longleftrightarrow> 1 \<le> length got)
     \<and> (got \<noteq> [] \<longrightarrow> mBytesRead s' = of_nat (length got))
     \<and> length got \<le> INT_MAX
     \<and> length got \<le> store_size (session_path s h) h - nat (sint (mPosition s))"
proof (cases "LLFile_fopen (session_path s h) ''rb'' h")
  case None
  then show ?thesis
    by (simp add: read_def session_path_def)
next
  case (Some a)
  obtain stream h1 where a: "a = (stream, h1)"
    by (cases a) auto
  have op: "h1 = h" "fname stream = session_path s h" "fpending stream = []"
    using Some a
    by (auto simp add: LLFile_fopen_def split: option.splits node.splits if_splits)
  show ?thesis
  proof (cases "sint (mPosition s) < 0")
    case True
    then show ?thesis
      using Some a op by (simp add: read_def session_path_def fseek_def)
  next
    case False
    define stream1 where "stream1 = stream\<lparr>fpos := nat (sint (mPosition s))\<rparr>"
    obtain got stream2 where fr: "fread (size_t bytes) stream1 h = (got, stream2)"
      by (cases "fread (size_t bytes) stream1 h") auto
    have eff: "fpending stream2 = []" "length got \<le> INT_MAX"
        "length got \<le> store_size (session_path s h) h - nat (sint (mPosition s))"
      using fread_effect [where bytes = bytes and f = stream1 and h = h] fr op by (simp_all add: stream1_def)
    have "read s bytes h =
        (of_nat (length got) \<noteq> (0 :: S32), got,
         s\<lparr>mBytesRead := of_nat (length got),
           mPosition := mPosition s + of_nat (length got)\<rparr>, h)"
      using Some a op(1) False fr eff(1)
      by (simp add: read_def session_path_def [symmetric] fseek_def stream1_def [symmetric]
          fclose_nothing)
    then show ?thesis
      using eff by (simp add: of_nat_S32_eq_0 Suc_le_eq)
  qed
qed

subsection \<open>Read\<close>

text \<open>
  Claim C9. Where the store cannot be opened, \<^verbatim>\<open>read\<close> returns failure; the cursor
  (and the rest of the session, and the host) is as before.
\<close>

theorem read_unopenable:
  "LLFile_fopen (session_path s h) ''rb'' h = None \<Longrightarrow> read s bytes h = (False, [], s, h)"
  by (simp add: read_def session_path_def)

theorem read_unopenable_witness:
  "LLFile_fopen (session_path (session0 ''missing'' READ 7) host0) ''rb'' host0 = None
   \<and> read (session0 ''missing'' READ 7) 4 host0 = (False, [], session0 ''missing'' READ 7, host0)
   \<and> tell (session0 ''missing'' READ 7) = 7"
  using read_unopenable [of "session0 ''missing'' READ 7" host0 4]
  by (simp add: host0_def session0_def session_path_def filepath_def LLFile_fopen_def tell_def)

text \<open>
  Claim C3, as stated: on success the cursor advances by exactly the number of bytes
  obtained. It fails where the sum is no \<^verbatim>\<open>S32\<close> value: on a store of
  \<^verbatim>\<open>INT_MAX\<close> + 2 bytes with the cursor at \<^verbatim>\<open>INT_MAX\<close>, a read of two bytes
  succeeds and the cursor wraps around to a negative value.
\<close>

theorem read_cursor_advance_counterexample:
  "fst (read (session0 ''H'' READ 2147483647) 2 host1)
   \<and> length (fst (snd (read (session0 ''H'' READ 2147483647) 2 host1))) = 2
   \<and> sint (mPosition (session0 ''H'' READ 2147483647)) = 2147483647
   \<and> sint (mPosition (fst (snd (snd (read (session0 ''H'' READ 2147483647) 2 host1)))))
       = - 2147483647"
proof -
  have size: "size_t 2 = 2"
    by (simp add: size_t_nonneg)
  have "read (session0 ''H'' READ 2147483647) 2 host1
      = (True, replicate 2 0, (session0 ''H'' READ 2147483649)\<lparr>mBytesRead := 2\<rparr>, host1)"
    by (simp add: read_def fread_def fseek_def fclose_nothing LLFile_fopen_def session0_def
        host1_def filepath_def size SSIZE_MAX_def Let_def)
  then show ?thesis
    by (simp add: session0_def)
qed

text \<open>
  Claim C3, amended. For every \<^verbatim>\<open>read\<close> call, whatever the store and the number of
  bytes asked for, the call returns success exactly when it obtained at least one byte.
  On success the last-bytes-read counter is the number of bytes obtained. The cursor
  becomes the \<^verbatim>\<open>S32\<close> sum of the old cursor and the number of bytes obtained: on
  success it has advanced by exactly that number wherever the sum is at most
  \<^verbatim>\<open>INT_MAX\<close>.
\<close>

theorem read_success_iff_bytes_obtained:
  "case read s bytes h of (ok, got, s', h') \<Rightarrow>
     (ok \<longleftrightarrow> 1 \<le> length got)
     \<and> (ok \<longrightarrow> sint (getLastBytesRead s') = int (length got))
     \<and> mPosition s' = mPosition s + of_nat (length got)
     \<and> (ok \<and> sint (mPosition s) + int (length got) \<le> int INT_MAX \<longrightarrow>
           sint (mPosition s') = sint (mPosition s) + int (length got))"
proof -
  obtain ok got s' h' where rd: "read s bytes h = (ok, got, s', h')"
    by (cases "read s bytes h") auto
  have eff: "mPosition s' = mPosition s + of_nat (length got)" "ok \<longleftrightarrow> 1 \<le> length got"
      "got \<noteq> [] \<longrightarrow> mBytesRead s' = of_nat (length got)" "length got \<le> INT_MAX"
    using read_effect [where s = s and bytes = bytes and h = h] rd by simp_all
  have count: "sint (of_nat (length got) :: S32) = int (length got)"
    using eff(4) by (rule sint_of_nat_S32)
  have "sint (mPosition s + of_nat (length got)) = sint (mPosition s) + int (length got)"
    if "sint (mPosition s) + int (length got) \<le> int INT_MAX"
    using that sint_S32_range [of "mPosition s"]
    by (intro sint_add_S32 [THEN trans]) (simp_all add: count INT_MAX_def)
  then show ?thesis
    using eff count by (auto simp add: rd getLastBytesRead_def)
qed

theorem read_success_iff_bytes_obtained_witness:
  "(case read (session0 ''A'' READ 1) 5 host0 of (ok, got, s', h') \<Rightarrow>
      ok \<and> got = [111, 111]
      \<and> sint (mPosition (session0 ''A'' READ 1)) + int (length got) \<le> int INT_MAX
      \<and> sint (mPosition s') = 3 \<and> sint (getLastBytesRead s') = 2)
   \<and> (case read (session0 ''A'' READ 3) 5 host0 of (ok, got, s', h') \<Rightarrow>
         \<not> ok \<and> got = [] \<and> sint (mPosition s') = 3)"
proof -
  have size: "size_t 5 = 5"
    by (simp add: size_t_nonneg)
  have 1: "fst (snd (read (session0 ''A'' READ 1) 5 host0)) = [111, 111]"
    by (simp add: read_def fread_def fseek_def fclose_nothing LLFile_fopen_def session0_def
        host0_def filepath_def size SSIZE_MAX_def Let_def)
  have 2: "fst (snd (read (session0 ''A'' READ 3) 5 host0)) = []"
    by (simp add: read_def fread_def fseek_def fclose_nothing LLFile_fopen_def session0_def
        host0_def filepath_def size SSIZE_MAX_def Let_def)
  show ?thesis
    using 1 2
      read_success_iff_bytes_obtained [of "session0 ''A'' READ 1" 5 host0]
      read_success_iff_bytes_obtained [of "session0 ''A'' READ 3" 5 host0]
    by (simp add: split_def session0_def INT_MAX_def)
qed

subsection \<open>Seek\<close>

text \<open>
  Claim C6, as stated: a target beyond the size of the store sets the cursor to the
  size, and any target between 0 and the size becomes the cursor. The first fails for a
  relative seek whose target is no \<^verbatim>\<open>S32\<close> value: from cursor 1 with the offset
  \<^verbatim>\<open>INT_MAX\<close>, on a store of three bytes, the sum wraps around to a negative value
  and the cursor becomes 0, not 3. The second fails on a store larger than
  \<^verbatim>\<open>INT_MAX\<close>, whose size the code narrows to a negative \<^verbatim>\<open>S32\<close>: the seek to
  offset 0 is rejected and the cursor becomes that negative size.
\<close>

theorem seek_clamps_counterexample:
  "\<not> fst (seek (session0 ''A'' READ 1) 2147483647 (- 1) host0)
   \<and> store_size (session_path (session0 ''A'' READ 1) host0) host0 = 3
   \<and> sint (mPosition (session0 ''A'' READ 1)) + sint (2147483647 :: S32) = 2147483648
   \<and> sint (mPosition (fst (snd (seek (session0 ''A'' READ 1) 2147483647 (- 1) host0)))) = 0
   \<and> \<not> fst (seek (session0 ''H'' READ 0) 0 0 host1)
   \<and> store_size (session_path (session0 ''H'' READ 0) host1) host1 = 2147483649
   \<and> sint (mPosition (fst (snd (seek (session0 ''H'' READ 0) 0 0 host1)))) = - 2147483647"
  by (simp add: seek_def getSize_def getFileSize_def LLFile_stat_def store_size_def
      session_path_def filepath_def session0_def host0_def host1_def Let_def)

text \<open>
  Claim C6, amended. For \<^verbatim>\<open>seek(offset, origin)\<close> with the origin 0, or the
  sentinel -1 (the base is then the cursor) and a sum of cursor and offset that is an
  \<^verbatim>\<open>S32\<close> value, on a store no larger than \<^verbatim>\<open>INT_MAX\<close>: a target (base plus
  offset) beyond the size of the store sets the cursor to the size and reports failure;
  a negative target sets the cursor to 0 and reports failure; any other target becomes
  the cursor and the call reports success.
\<close>

theorem seek_clamps:
  assumes "origin = 0 \<or>
           origin = - 1 \<and> - 2147483648 \<le> sint (mPosition s) + sint offset
             \<and> sint (mPosition s) + sint offset \<le> 2147483647"
    and "store_size (session_path s h) h \<le> INT_MAX"
  shows "let base = (if origin = - 1 then sint (mPosition s) else 0);
             target = base + sint offset;
             size = int (store_size (session_path s h) h)
         in case seek s offset origin h of (ok, s', h') \<Rightarrow>
              (size < target \<longrightarrow> \<not> ok \<and> sint (mPosition s') = size)
              \<and> (target < 0 \<longrightarrow> \<not> ok \<and> sint (mPosition s') = 0)
              \<and> (0 \<le> target \<and> target \<le> size \<longrightarrow> ok \<and> sint (mPosition s') = target)"
proof -
  have size: "sint (getSize s h) = int (store_size (session_path s h) h)"
    using assms(2) by (rule sint_getSize)
  have nonneg: "0 \<le> sint (getSize s h)"
    by (simp add: size)
  show ?thesis
    using assms(1) size nonneg
    by (auto simp add: seek_def Let_def sint_add_S32)
qed

theorem seek_clamps_witness:
  "store_size (session_path (session0 ''A'' READ 2) host0) host0 \<le> INT_MAX
   \<and> - 2147483648 \<le> sint (mPosition (session0 ''A'' READ 2)) + sint (1 :: S32)
   \<and> sint (mPosition (session0 ''A'' READ 2)) + sint (1 :: S32) \<le> 2147483647
   \<and> (case seek (session0 ''A'' READ 2) 5 0 host0 of (ok, s', h') \<Rightarrow> \<not> ok \<and> sint (mPosition s') = 3)
   \<and> (case seek (session0 ''A'' READ 2) (- 5) 0 host0 of (ok, s', h') \<Rightarrow> \<not> ok \<and> sint (mPosition s') = 0)
   \<and> (case seek (session0 ''A'' READ 2) 1 (- 1) host0 of (ok, s', h') \<Rightarrow> ok \<and> sint (mPosition s') = 3)
   \<and> (case seek (session0 ''A'' READ 2) (- 1) (- 1) host0 of (ok, s', h') \<Rightarrow> ok \<and> sint (mPosition s') = 1)"
proof -
  have size: "store_size (session_path (session0 ''A'' READ 2) host0) host0 \<le> INT_MAX"
    by (simp add: host0_def session0_def session_path_def filepath_def store_size_def
        LLFile_stat_def INT_MAX_def)
  have pos: "sint (mPosition (session0 ''A'' READ 2)) = 2"
    by (simp add: session0_def)
  have three: "int (store_size (session_path (session0 ''A'' READ 2) host0) host0) = 3"
    by (simp add: host0_def session0_def session_path_def filepath_def store_size_def
        LLFile_stat_def)
  show ?thesis
    using size
      seek_clamps [where origin = 0 and s = "session0 ''A'' READ 2" and h = host0
        and offset = 5, OF _ size]
      seek_clamps [where origin = 0 and s = "session0 ''A'' READ 2" and h = host0
        and offset = "- 5", OF _ size]
      seek_clamps [where origin = "- 1" and s = "session0 ''A'' READ 2" and h = host0
        and offset = 1, OF _ size]
      seek_clamps [where origin = "- 1" and s = "session0 ''A'' READ 2" and h = host0
        and offset = "- 1", OF _ size]
    by (simp add: pos three Let_def split_def)
qed

subsection \<open>Write\<close>

text \<open>The bytes the volume stored are a prefix of the caller's buffer.\<close>

lemma request_prefix: "take (length (take n (request buffer bytes))) buffer
    = take n (request buffer bytes)"
  by (simp add: request_def min_def)

text \<open>
  Claim C4, as stated: in every mode \<^verbatim>\<open>write\<close> returns success exactly when the number
  of bytes written equals the number requested. It fails in both directions. A request
  of zero bytes on a store that does not open (here a directory is in the store's
  place) writes no byte, which is the number requested, and returns failure. A request
  of three bytes on a volume that has room for two returns success with two bytes
  stored: the stream takes the three bytes into its buffer, \<^verbatim>\<open>fwrite\<close> counts three,
  and the result of \<^verbatim>\<open>fclose\<close>, which stores two of them, is dropped.
\<close>

theorem write_success_iff_exact_count_counterexample:
  "\<not> (fst (write_buffer (session0 ''D'' WRITE 0) [] 0 host0)
       \<longleftrightarrow> int (fst (snd (write_buffer (session0 ''D'' WRITE 0) [] 0 host0))) = sint (0 :: S32))
   \<and> \<not> (fst (write_buffer (session0 ''A'' WRITE 0) [97, 98, 99] 3 (host0\<lparr>quota := 2\<rparr>))
       \<longleftrightarrow> int (fst (snd (write_buffer (session0 ''A'' WRITE 0) [97, 98, 99] 3
                                   (host0\<lparr>quota := 2\<rparr>)))) = sint (3 :: S32))"
proof -
  have size: "size_t 3 = 3"
    by (simp add: size_t_nonneg)
  have "write_buffer (session0 ''D'' WRITE 0) [] 0 host0 = (False, 0, session0 ''D'' WRITE 0, host0)"
    by (simp add: write_buffer_def session0_def host0_def filepath_def LLFile_fopen_def
        WRITE_def APPEND_def READ_WRITE_def)
  moreover have "write_buffer (session0 ''A'' WRITE 0) [97, 98, 99] 3 (host0\<lparr>quota := 2\<rparr>)
      = (True, 2, session0 ''A'' WRITE 3,
         host0\<lparr>files := (files host0)(''cache/A'' \<mapsto> Regular [97, 98]), quota := 0\<rparr>)"
    by (simp add: write_buffer_def write_stream_def fwrite_def sys_write_def ftell_def
        fclose_def overwrite_def LLFile_fopen_def session0_def host0_def filepath_def size
        SSIZE_MAX_def WRITE_def APPEND_def READ_WRITE_def Let_def)
  ultimately show ?thesis
    by simp
qed

text \<open>
  Claim C4, amended. In every mode (\<^verbatim>\<open>APPEND\<close>, \<^verbatim>\<open>READ_WRITE\<close>, and the
  truncating branch every other mode takes), where the volume stores what the stream
  took into its buffer, \<^verbatim>\<open>write\<close> returns success exactly when the store opened for
  the mode (and, for \<^verbatim>\<open>READ_WRITE\<close> on an existing store, was positioned at the cursor)
  and the number of bytes the volume stored equals the number requested. The bytes
  stored are the first of the caller's buffer, and they are in the store afterwards.
\<close>

theorem write_success_iff_opened_and_exact_count:
  assumes "flush_complete buffer bytes h"
  shows "case write_buffer s buffer bytes h of (ok, written, s', h') \<Rightarrow>
           (ok \<longleftrightarrow> opens_for_write s h \<and> int written = sint bytes)
           \<and> (opens_for_write s h \<longrightarrow>
                 (\<exists>bs at. files h' (session_path s h)
                    = Some (Regular (if written = 0 then bs
                                     else overwrite bs at (take written buffer)))))"
proof (cases "opens_for_write s h")
  case False
  then show ?thesis
    using write_buffer_not_opened [of s h buffer bytes] by (simp add: split_def)
next
  case True
  then obtain ofs h1 bs where wr: "write_buffer s buffer bytes h = write_stream s buffer bytes ofs h1"
      and reg: "files h1 (fname ofs) = Some (Regular bs)" "fpending ofs = []"
      and same: "quota h1 = quota h" "bufsiz h1 = bufsiz h"
      and name: "fname ofs = session_path s h"
    using write_buffer_opened [of s h buffer bytes] by blast
  have "flush_complete buffer bytes h1"
    using assms by (simp add: flush_complete_def same)
  with reg have exact: "fst (write_stream s buffer bytes ofs h1)
         \<longleftrightarrow> int (fst (snd (write_stream s buffer bytes ofs h1))) = sint bytes"
    by (rule write_stream_exact)
  define out where "out = take (quota h1) (request buffer bytes)"
  define at where "at = (if fappend ofs then length bs else fpos ofs)"
  have res: "fst (snd (write_stream s buffer bytes ofs h1)) = length out"
      "snd (snd (snd (write_stream s buffer bytes ofs h1)))
         = after_store h1 (fname ofs) bs at out"
    using write_stream_regular [OF reg, of s buffer bytes]
    by (simp_all add: Let_def out_def at_def del: length_take)
  have "take (length out) buffer = out"
    unfolding out_def by (rule request_prefix)
  then have "files (after_store h1 (fname ofs) bs at out) (fname ofs)
      = Some (Regular (if length out = 0 then bs else overwrite bs at (take (length out) buffer)))"
    using after_store_file [OF reg(1), of at out] by simp
  then have "\<exists>bs at. files (snd (snd (snd (write_stream s buffer bytes ofs h1)))) (session_path s h)
      = Some (Regular (if fst (snd (write_stream s buffer bytes ofs h1)) = 0 then bs
                       else overwrite bs at
                              (take (fst (snd (write_stream s buffer bytes ofs h1))) buffer)))"
    unfolding res name [symmetric] by blast
  with True exact show ?thesis
    unfolding wr split_def by blast
qed

theorem write_success_iff_opened_and_exact_count_witness:
  "flush_complete [97, 98, 99] 3 host0
   \<and> (case write_buffer (session0 ''A'' APPEND 0) [97, 98, 99] 3 host0 of (ok, written, s', h') \<Rightarrow>
         ok \<and> opens_for_write (session0 ''A'' APPEND 0) host0 \<and> written = 3)
   \<and> (case write_buffer (session0 ''D'' WRITE 0) [97, 98, 99] 3 host0 of (ok, written, s', h') \<Rightarrow>
         \<not> ok \<and> \<not> opens_for_write (session0 ''D'' WRITE 0) host0 \<and> written = 0)"
proof -
  have size: "size_t 3 = 3"
    by (simp add: size_t_nonneg)
  have 1: "flush_complete [97, 98, 99] 3 host0"
    by (simp add: flush_complete_def request_def size SSIZE_MAX_def host0_def)
  have 2: "opens_for_write (session0 ''A'' APPEND 0) host0"
    by (simp add: opens_for_write_def session0_def host0_def session_path_def filepath_def
        LLFile_fopen_def)
  have 3: "\<not> opens_for_write (session0 ''D'' WRITE 0) host0"
    by (simp add: opens_for_write_def session0_def host0_def session_path_def filepath_def
        LLFile_fopen_def WRITE_def APPEND_def READ_WRITE_def)
  have 4: "fst (snd (write_buffer (session0 ''A'' APPEND 0) [97, 98, 99] 3 host0)) = 3"
    by (simp add: write_buffer_def write_stream_def fwrite_def sys_write_def ftell_def
        fclose_def overwrite_def LLFile_fopen_def session0_def host0_def filepath_def size
        SSIZE_MAX_def APPEND_def Let_def)
  have 5: "fst (snd (write_buffer (session0 ''D'' WRITE 0) [97, 98, 99] 3 host0)) = 0"
    by (simp add: write_buffer_def LLFile_fopen_def session0_def host0_def filepath_def
        WRITE_def APPEND_def READ_WRITE_def)
  show ?thesis
    using 1 2 3 4 5
      write_success_iff_opened_and_exact_count [OF 1, of "session0 ''A'' APPEND 0"]
      write_success_iff_opened_and_exact_count [OF 1, of "session0 ''D'' WRITE 0"]
    by (simp add: split_def)
qed

text \<open>Append mode.\<close>

lemma seek_frame:
  "case seek s offset origin h of (ok, s', h') \<Rightarrow>
     mFileID s' = mFileID s \<and> mFileType s' = mFileType s \<and> mMode s' = mMode s
     \<and> mBytesRead s' = mBytesRead s
     \<and> files h' = files h \<and> quota h' = quota h \<and> bufsiz h' = bufsiz h
     \<and> metaDataToFilepath h' = metaDataToFilepath h
     \<and> append_at_end h' = append_at_end h \<and> dir_opens_rb h' = dir_opens_rb h"
  by (simp add: seek_def Let_def LL_WARNS_def)

lemma append_write:
  assumes "mMode s = APPEND"
    and "files h (session_path s h) = Some (Regular C)"
    and "sint bytes = int (length B)"
    and "length B \<le> quota h"
  shows "write_buffer s B bytes h =
           (True, length B,
            s\<lparr>mPosition := of_nat (if B = [] then (if append_at_end h then length C else 0)
                                   else length C + length B)\<rparr>,
            after_store h (session_path s h) C (length C) B)"
proof -
  define p where "p = session_path s h"
  define ofs where "ofs = \<lparr>fname = p, fpos = (if append_at_end h then length C else 0),
    fappend = True, fpending = []\<rparr>"
  have size: "size_t bytes = length B"
    using assms(3) by (simp add: size_t_nonneg)
  have "\<not> SSIZE_MAX < size_t bytes"
    using assms(3) by (simp only: size_t_SSIZE_MAX)
  then have req: "request B bytes = B"
    by (simp add: request_def size)
  have word: "(of_nat (length B) :: S32) = bytes"
    using assms(3) S32_eq_iff [of bytes "length B"] by simp
  have "write_buffer s B bytes h = write_stream s B bytes ofs h"
    using assms(1,2)
    by (simp add: write_buffer_def session_path_def LLFile_fopen_def ofs_def p_def)
  moreover have "files h (fname ofs) = Some (Regular C)" "fpending ofs = []"
    using assms(2) by (simp_all add: ofs_def p_def)
  moreover have direct: "length B - length B mod bufsiz h \<le> quota h"
    using assms(4) diff_le_self [of "length B" "length B mod bufsiz h"] by linarith
  ultimately show ?thesis
    using write_stream_regular [of h ofs C s B bytes] assms(4) word
    by (simp add: Let_def req ofs_def p_def del: of_nat_add)
qed

text \<open>
  Claim C5, as stated: a write in \<^verbatim>\<open>APPEND\<close> mode leaves the content \<open>C @ B\<close>
  and the cursor at the new end-of-store offset. The cursor part fails for the empty
  write where the C library starts an append stream at the beginning of the file: the
  write succeeds, the store keeps its three bytes, and the cursor is 0. It also fails
  where the new end of the store is no \<^verbatim>\<open>S32\<close> value: one byte appended to a store
  of \<^verbatim>\<open>INT_MAX\<close> bytes leaves a negative cursor. The content part fails on a volume
  that does not take \<open>B\<close>: with room for two bytes, three bytes appended to a store
  of three leave five, and the cursor at 6.
\<close>

theorem append_cursor_counterexample:
  "fst (write_buffer (session0 ''A'' APPEND 0) [] 0 host0)
   \<and> files (snd (snd (snd (write_buffer (session0 ''A'' APPEND 0) [] 0 host0)))) ''cache/A''
       = Some (Regular [102, 111, 111])
   \<and> sint (mPosition (fst (snd (snd (write_buffer (session0 ''A'' APPEND 0) [] 0 host0))))) = 0
   \<and> fst (write_buffer (session0 ''G'' APPEND 0) [1] 1 host1)
   \<and> files (snd (snd (snd (write_buffer (session0 ''G'' APPEND 0) [1] 1 host1)))) ''cache/G''
       = Some (Regular (replicate 2147483647 0 @ [1]))
   \<and> sint (mPosition (fst (snd (snd (write_buffer (session0 ''G'' APPEND 0) [1] 1 host1)))))
       = - 2147483648
   \<and> fst (write_buffer (session0 ''A'' APPEND 0) [97, 98, 99] 3 (host0\<lparr>quota := 2\<rparr>))
   \<and> files (snd (snd (snd (write_buffer (session0 ''A'' APPEND 0) [97, 98, 99] 3
                               (host0\<lparr>quota := 2\<rparr>))))) ''cache/A''
       = Some (Regular [102, 111, 111, 97, 98])
   \<and> sint (mPosition (fst (snd (snd (write_buffer (session0 ''A'' APPEND 0) [97, 98, 99] 3
                                       (host0\<lparr>quota := 2\<rparr>)))))) = 6"
proof -
  have a: "write_buffer (session0 ''A'' APPEND 0) [] 0 host0
      = (True, 0, session0 ''A'' APPEND 0, host0)"
    using append_write [of "session0 ''A'' APPEND 0" host0 "[102, 111, 111]" 0 "[]"]
    by (simp add: session0_def host0_def session_path_def filepath_def after_store_def)
  have g: "write_buffer (session0 ''G'' APPEND 0) [1] 1 host1
      = (True, 1, session0 ''G'' APPEND 2147483648,
         after_store host1 ''cache/G'' (replicate 2147483647 0) 2147483647 [1])"
    using append_write [of "session0 ''G'' APPEND 0" host1 "replicate 2147483647 0" 1 "[1]"]
    by (simp add: session0_def host1_def session_path_def filepath_def)
  have content: "overwrite (replicate 2147483647 0) 2147483647 [1 :: U8]
      = replicate 2147483647 0 @ [1]"
    using overwrite_at_end [of "replicate 2147483647 (0 :: U8)" "[1]"] by simp
  have size: "size_t 3 = 3"
    by (simp add: size_t_nonneg)
  have q: "write_buffer (session0 ''A'' APPEND 0) [97, 98, 99] 3 (host0\<lparr>quota := 2\<rparr>)
      = (True, 2, session0 ''A'' APPEND 6,
         host0\<lparr>files := (files host0)(''cache/A'' \<mapsto> Regular [102, 111, 111, 97, 98]),
               quota := 0\<rparr>)"
    by (simp add: write_buffer_def write_stream_def fwrite_def sys_write_def ftell_def
        fclose_def overwrite_def LLFile_fopen_def session0_def host0_def filepath_def size
        SSIZE_MAX_def APPEND_def Let_def)
  show ?thesis
    unfolding a g q by (simp add: after_store_def content session0_def host0_def)
qed

text \<open>
  Claim C5, amended. In \<^verbatim>\<open>APPEND\<close> mode, on a store with content \<open>C\<close>, a write of
  the bytes \<open>B\<close> that the volume takes succeeds and leaves the content \<open>C @ B\<close>,
  whatever seek came before it. For a non-empty \<open>B\<close> with \<open>C @ B\<close> no longer than
  \<^verbatim>\<open>INT_MAX\<close>, the cursor is then the new end-of-store offset.
\<close>

theorem append_write_after_seek:
  assumes "mMode s = APPEND"
    and "files h (session_path s h) = Some (Regular C)"
    and "sint bytes = int (length B)"
    and "length B \<le> quota h"
  shows "case seek s offset origin h of (sought, s1, h1) \<Rightarrow>
           (case write_buffer s1 B bytes h1 of (ok, written, s', h') \<Rightarrow>
              ok \<and> written = length B
              \<and> files h' (session_path s h) = Some (Regular (C @ B))
              \<and> (B \<noteq> [] \<and> length C + length B \<le> INT_MAX \<longrightarrow>
                    sint (mPosition s') = int (length C) + int (length B)))"
proof -
  obtain sought s1 h1 where sk: "seek s offset origin h = (sought, s1, h1)"
    by (cases "seek s offset origin h") auto
  have frame: "mFileID s1 = mFileID s" "mFileType s1 = mFileType s" "mMode s1 = mMode s"
      "files h1 = files h" "quota h1 = quota h" "metaDataToFilepath h1 = metaDataToFilepath h"
    using seek_frame [where s = s and offset = offset and origin = origin and h = h] sk
    by simp_all
  have path: "session_path s1 h1 = session_path s h"
    by (simp add: session_path_def filepath_def frame)
  have wr: "write_buffer s1 B bytes h1 =
           (True, length B,
            s1\<lparr>mPosition := of_nat (if B = [] then (if append_at_end h1 then length C else 0)
                                   else length C + length B)\<rparr>,
            after_store h1 (session_path s h) C (length C) B)"
    using append_write [of s1 h1 C bytes B] assms by (simp add: frame path)
  have content: "files (after_store h1 (session_path s h) C (length C) B) (session_path s h)
      = Some (Regular (C @ B))"
    using assms(2) after_store_file [of h1 "session_path s h" C "length C" B]
    by (simp add: frame overwrite_at_end)
  have cursor: "sint (of_nat (length C + length B) :: S32) = int (length C) + int (length B)"
    if "length C + length B \<le> INT_MAX"
    using sint_of_nat_S32 [OF that] by (simp only: of_nat_add)
  show ?thesis
    using content cursor by (simp add: sk wr del: of_nat_add)
qed

theorem append_write_after_seek_witness:
  "mMode (session0 ''A'' APPEND 0) = APPEND
   \<and> files host0 (session_path (session0 ''A'' APPEND 0) host0) = Some (Regular [102, 111, 111])
   \<and> sint (3 :: S32) = int (length [97 :: U8, 98, 99])
   \<and> length [97 :: U8, 98, 99] \<le> quota host0
   \<and> (case seek (session0 ''A'' APPEND 0) 1 0 host0 of (sought, s1, h1) \<Rightarrow>
         (case write_buffer s1 [97, 98, 99] 3 h1 of (ok, written, s', h') \<Rightarrow>
            ok \<and> files h' ''cache/A'' = Some (Regular [102, 111, 111, 97, 98, 99])
            \<and> sint (mPosition s') = 6))"
proof -
  have 1: "mMode (session0 ''A'' APPEND 0) = APPEND"
    by (simp add: session0_def)
  have 2: "files host0 (session_path (session0 ''A'' APPEND 0) host0) = Some (Regular [102, 111, 111])"
    by (simp add: session0_def host0_def session_path_def filepath_def)
  have 3: "sint (3 :: S32) = int (length [97 :: U8, 98, 99])"
    by simp
  have 4: "length [97 :: U8, 98, 99] \<le> quota host0"
    by (simp add: host0_def)
  have 6: "session_path (session0 ''A'' APPEND 0) host0 = ''cache/A''"
    by (simp add: session0_def host0_def session_path_def filepath_def)
  show ?thesis
    using 1 2 3 4 append_write_after_seek [OF 1 2 3 4, of 1 0]
    by (simp add: 6 split_def INT_MAX_def)
qed

text \<open>Update in place.\<close>

lemma request_nth: "j < length (take n (request buffer bytes)) \<Longrightarrow>
    take n (request buffer bytes) ! j = buffer ! j"
  by (simp add: request_def split: if_splits)

text \<open>
  Claim C7. In \<^verbatim>\<open>READ_WRITE\<close> mode on an existing store, \<^verbatim>\<open>write\<close> writes at the
  cursor: the store does not get shorter, every byte of it outside the written span
  (which starts at the cursor and is at most as long as the request) is as before, the
  span holds the first bytes of the buffer, and no other path of the volume changes.
\<close>

theorem read_write_keeps_bytes_outside_span:
  assumes "mMode s = READ_WRITE"
    and "files h (session_path s h) = Some (Regular bs)"
  shows "case write_buffer s buffer bytes h of (ok, written, s', h') \<Rightarrow>
           written \<le> size_t bytes
           \<and> (case files h' (session_path s h) of
                 Some (Regular bs') \<Rightarrow>
                   length bs \<le> length bs'
                   \<and> (\<forall>i < length bs.
                         int i < sint (mPosition s) \<or> sint (mPosition s) + int written \<le> int i
                         \<longrightarrow> bs' ! i = bs ! i)
                   \<and> (\<forall>j < written. bs' ! (nat (sint (mPosition s)) + j) = buffer ! j)
               | _ \<Rightarrow> False)
           \<and> (\<forall>p. p \<noteq> session_path s h \<longrightarrow> files h' p = files h p)"
proof (cases "sint (mPosition s) < 0")
  case True
  then have "write_buffer s buffer bytes h = (False, 0, s, h)"
    using assms
    by (simp add: write_buffer_def session_path_def LLFile_fopen_def fseek_def
        READ_WRITE_def APPEND_def)
  then show ?thesis
    using assms(2) by simp
next
  case False
  define p where "p = session_path s h"
  define at where "at = nat (sint (mPosition s))"
  define out where "out = take (quota h) (request buffer bytes)"
  define ofs where "ofs = \<lparr>fname = p, fpos = at, fappend = False, fpending = []\<rparr>"
  have mode: "mMode s \<noteq> APPEND"
    using assms(1) by (simp add: READ_WRITE_def APPEND_def)
  have "write_buffer s buffer bytes h = write_stream s buffer bytes ofs h"
    using assms mode False
    by (simp add: write_buffer_def session_path_def LLFile_fopen_def fseek_def
        ofs_def p_def at_def)
  moreover have "files h (fname ofs) = Some (Regular bs)" "fpending ofs = []"
    using assms(2) by (simp_all add: ofs_def p_def)
  ultimately obtain ok s' where wr: "write_buffer s buffer bytes h
      = (ok, length out, s', after_store h p bs at out)"
    using write_stream_regular [of h ofs bs s buffer bytes]
    by (simp add: Let_def ofs_def out_def del: length_take)
  have len: "length out \<le> size_t bytes"
    using request_size_t [of buffer bytes] by (simp add: out_def)
  have content: "files (after_store h p bs at out) p
      = Some (Regular (if out = [] then bs else overwrite bs at out))"
    using assms(2) unfolding p_def by (rule after_store_file)
  have before: "overwrite bs at out ! i = bs ! i"
    if "i < length bs" and "int i < sint (mPosition s)" for i
    using that False by (intro overwrite_nth_before) (simp_all add: at_def)
  have after: "overwrite bs at out ! i = bs ! i"
    if "i < length bs" and "sint (mPosition s) + int (length out) \<le> int i" for i
    using that False by (intro overwrite_nth_after) (simp_all add: at_def)
  have written: "overwrite bs at out ! (at + j) = buffer ! j" if "j < length out" for j
  proof -
    have "overwrite bs at out ! (at + j) = out ! j"
      using that by (rule overwrite_nth_written)
    also have "out ! j = buffer ! j"
      using that unfolding out_def by (rule request_nth)
    finally show ?thesis .
  qed
  show ?thesis
    using len before after written
    by (simp add: wr p_def [symmetric] content length_overwrite at_def [symmetric])
qed

theorem read_write_keeps_bytes_outside_span_witness:
  "mMode (session0 ''A'' READ_WRITE 1) = READ_WRITE
   \<and> files host0 (session_path (session0 ''A'' READ_WRITE 1) host0) = Some (Regular [102, 111, 111])
   \<and> (case write_buffer (session0 ''A'' READ_WRITE 1) [120] 1 host0 of (ok, written, s', h') \<Rightarrow>
         ok \<and> written = 1 \<and> files h' ''cache/A'' = Some (Regular [102, 120, 111])
         \<and> files h' ''cache/E'' = files host0 ''cache/E'')"
proof -
  have 1: "mMode (session0 ''A'' READ_WRITE 1) = READ_WRITE"
    by (simp add: session0_def)
  have 2: "files host0 (session_path (session0 ''A'' READ_WRITE 1) host0) = Some (Regular [102, 111, 111])"
    by (simp add: session0_def host0_def session_path_def filepath_def)
  have size: "size_t 1 = 1"
    by (simp add: size_t_nonneg)
  show ?thesis
    using 1 2 read_write_keeps_bytes_outside_span [OF 1 2, where buffer = "[120]" and bytes = 1]
    by (simp add: write_buffer_def write_stream_def session0_def host0_def session_path_def
        filepath_def LLFile_fopen_def fseek_def fwrite_def sys_write_def ftell_def fclose_def
        overwrite_def size SSIZE_MAX_def READ_WRITE_def APPEND_def Let_def)
qed

subsection \<open>The cursor invariant\<close>

lemma read_cursor:
  assumes "cursor_in_store (s, h)" and "current_size (s, h) \<le> INT_MAX"
  shows "cursor_in_store (step (Read bytes) (s, h))"
proof -
  obtain ok got s' h' where rd: "read s bytes h = (ok, got, s', h')"
    by (cases "read s bytes h") auto
  have eff: "h' = h" "mFileID s' = mFileID s" "mFileType s' = mFileType s"
      "mPosition s' = mPosition s + of_nat (length got)"
      "length got \<le> store_size (session_path s h) h - nat (sint (mPosition s))"
    using read_effect [where s = s and bytes = bytes and h = h] rd by simp_all
  have path: "session_path s' h = session_path s h"
    by (simp add: session_path_def eff)
  have inv: "0 \<le> sint (mPosition s)"
      "sint (mPosition s) \<le> int (store_size (session_path s h) h)"
    using assms(1) by (simp_all add: cursor_in_store_def)
  have size: "store_size (session_path s h) h \<le> INT_MAX"
    using assms(2) by (simp add: current_size_def)
  have got_max: "length got \<le> INT_MAX"
    using eff(5) size by simp
  have sum: "sint (mPosition s) + int (length got) \<le> int (store_size (session_path s h) h)"
    using eff(5) inv by linarith
  then have "sint (mPosition s) + int (length got) \<le> 2147483647"
    using size unfolding INT_MAX_def by linarith
  then have "sint (mPosition s + of_nat (length got)) = sint (mPosition s) + int (length got)"
    using inv(1) got_max by (simp add: sint_add_S32 sint_of_nat_S32)
  then show ?thesis
    using sum inv(1) by (simp add: rd cursor_in_store_def path eff(1,4))
qed

lemma seek_cursor:
  assumes "current_size (s, h) \<le> INT_MAX"
  shows "cursor_in_store (step (Seek offset origin) (s, h))"
proof -
  obtain ok s' h' where sk: "seek s offset origin h = (ok, s', h')"
    by (cases "seek s offset origin h") auto
  have frame: "mFileID s' = mFileID s" "mFileType s' = mFileType s"
      "files h' = files h" "metaDataToFilepath h' = metaDataToFilepath h"
    using seek_frame [where s = s and offset = offset and origin = origin and h = h] sk
    by simp_all
  have path: "session_path s' h' = session_path s h"
    by (simp add: session_path_def filepath_def frame)
  have same: "store_size (session_path s h) h' = store_size (session_path s h) h"
    by (simp add: store_size_files frame)
  have size: "sint (getSize s h) = int (store_size (session_path s h) h)"
    using assms by (intro sint_getSize) (simp add: current_size_def)
  have "0 \<le> sint (mPosition s') \<and> sint (mPosition s') \<le> sint (getSize s h)"
    using sk size by (auto simp add: seek_def Let_def split: if_splits)
  then show ?thesis
    by (simp add: sk cursor_in_store_def path same size)
qed

lemma write_stream_cursor:
  assumes "files h (fname ofs) = Some (Regular bs)" and "fpending ofs = []"
    and "fpos ofs \<le> length bs"
    and "flush_complete buffer bytes h"
    and "write_stream s buffer bytes ofs h = (ok, written, s', h')"
    and "store_size (fname ofs) h' \<le> INT_MAX"
  shows "mFileID s' = mFileID s \<and> mFileType s' = mFileType s
         \<and> metaDataToFilepath h' = metaDataToFilepath h
         \<and> 0 \<le> sint (mPosition s')
         \<and> sint (mPosition s') \<le> int (store_size (fname ofs) h')"
proof -
  define src where "src = request buffer bytes"
  define direct where "direct = length src - length src mod bufsiz h"
  define at where "at = (if fappend ofs then length bs else fpos ofs)"
  define ret where "ret = (if direct \<le> quota h then length src else quota h)"
  define pos where "pos = (if ret = 0 then fpos ofs else at + ret)"
  define out where "out = take (quota h) src"
  have "write_stream s buffer bytes ofs h
      = (of_nat ret = bytes, length out, s\<lparr>mPosition := of_nat pos\<rparr>,
         after_store h (fname ofs) bs at out)"
    using write_stream_regular [OF assms(1,2), of s buffer bytes]
    unfolding pos_def ret_def out_def at_def direct_def src_def
    by (simp add: Let_def del: of_nat_add length_take)
  then have res: "s' = s\<lparr>mPosition := of_nat pos\<rparr>"
      "h' = after_store h (fname ofs) bs at out"
    using assms(5) by simp_all
  have stored: "length out = ret"
    using assms(4) by (auto simp add: flush_complete_def Let_def src_def direct_def ret_def out_def)
  have at: "at \<le> length bs"
    using assms(3) by (simp add: at_def)
  have size: "store_size (fname ofs) h' = (if out = [] then length bs else max (length bs) (at + ret))"
    using after_store_file [OF assms(1), of at out] stored
    by (simp add: res(2) store_size_files length_overwrite)
  have "pos \<le> store_size (fname ofs) h'"
    using assms(3) stored by (auto simp add: size pos_def)
  moreover from this have "pos \<le> INT_MAX"
    using assms(6) by simp
  then have "sint (of_nat pos :: S32) = int pos"
    by (rule sint_of_nat_S32)
  ultimately show ?thesis
    by (simp add: res)
qed

lemma write_cursor:
  assumes "cursor_in_store (s, h)"
    and "flush_complete buffer bytes h"
    and "current_size (step (Write buffer bytes) (s, h)) \<le> INT_MAX"
  shows "cursor_in_store (step (Write buffer bytes) (s, h))"
proof -
  define p where "p = session_path s h"
  obtain ok written s' h' where wr: "write_buffer s buffer bytes h = (ok, written, s', h')"
    by (cases "write_buffer s buffer bytes h") auto
  have inv: "0 \<le> sint (mPosition s)" "sint (mPosition s) \<le> int (store_size p h)"
    using assms(1) by (simp_all add: cursor_in_store_def p_def)
  have stream: "cursor_in_store (s', h')"
    if ws: "write_stream s buffer bytes ofs h1 = (ok, written, s', h')"
      and op: "fname ofs = p" "fpending ofs = []" "metaDataToFilepath h1 = metaDataToFilepath h"
        "quota h1 = quota h" "bufsiz h1 = bufsiz h"
        "files h1 p = Some (Regular bs)" "fpos ofs \<le> length bs"
    for ofs h1 bs
  proof -
    have flush: "flush_complete buffer bytes h1"
      using assms(2) by (simp add: flush_complete_def op)
    have reg: "files h1 (fname ofs) = Some (Regular bs)"
      using op by simp
    have ids: "mFileID s' = mFileID s" "mFileType s' = mFileType s"
        "metaDataToFilepath h' = metaDataToFilepath h"
      using ws write_stream_regular [OF reg op(2), of s buffer bytes] op(3)
      by (auto simp add: Let_def)
    have path: "session_path s' h' = p"
      by (simp add: session_path_def filepath_def ids p_def)
    have "store_size (fname ofs) h' \<le> INT_MAX"
      using assms(3) by (simp add: wr current_size_def path op(1))
    from write_stream_cursor [OF reg op(2) op(7) flush ws this]
    show ?thesis
      by (simp add: cursor_in_store_def path op(1))
  qed
  have "cursor_in_store (s', h')"
  proof (cases "opens_for_write s h")
    case False
    then have "s' = s \<and> h' = h"
      using wr
      by (auto simp add: opens_for_write_def write_buffer_def session_path_def Let_def
          LLFile_fopen_def fseek_def split: option.splits node.splits if_splits)
    with assms(1) show ?thesis
      by simp
  next
    case True
    show ?thesis
    proof (cases "mMode s = APPEND")
      case append: True
      with True obtain ofs h1 where fo: "LLFile_fopen p ''a+b'' h = Some (ofs, h1)"
        by (auto simp add: opens_for_write_def Let_def p_def)
      have ws: "write_stream s buffer bytes ofs h1 = (ok, written, s', h')"
        using append wr fo by (simp add: write_buffer_def p_def session_path_def)
      from fopen_regular [OF fo]
      obtain bs where "fname ofs = p" "fpending ofs = []"
          "metaDataToFilepath h1 = metaDataToFilepath h" "quota h1 = quota h"
          "bufsiz h1 = bufsiz h" "files h1 p = Some (Regular bs)" "fpos ofs \<le> length bs"
        by (auto split: option.splits node.splits)
      with ws show ?thesis
        by (intro stream)
    next
      case not_append: False
      show ?thesis
      proof (cases "mMode s = READ_WRITE \<and> LLFile_fopen p ''r+b'' h \<noteq> None")
        case rw: True
        then obtain bs where bs: "files h p = Some (Regular bs)"
          by (auto simp add: LLFile_fopen_def split: option.splits node.splits)
        define ofs where
          "ofs = \<lparr>fname = p, fpos = nat (sint (mPosition s)), fappend = False, fpending = []\<rparr>"
        have ws: "write_stream s buffer bytes ofs h = (ok, written, s', h')"
          using rw not_append wr bs inv(1)
          by (simp add: write_buffer_def p_def [unfolded session_path_def, symmetric]
              LLFile_fopen_def fseek_def ofs_def)
        have name: "fname ofs = p" and pend: "fpending ofs = []"
          by (simp_all add: ofs_def)
        have pos: "fpos ofs \<le> length bs"
          using inv bs by (simp add: ofs_def store_size_files)
        from stream [OF ws name pend refl refl refl bs pos] show ?thesis .
      next
        case False
        with True not_append obtain ofs h1 where fo: "LLFile_fopen p ''wb'' h = Some (ofs, h1)"
          by (auto simp add: opens_for_write_def Let_def p_def split: option.splits)
        have ws: "write_stream s buffer bytes ofs h1 = (ok, written, s', h')"
          using False not_append wr fo
          by (auto simp add: write_buffer_def p_def session_path_def Let_def
              split: option.splits)
        from fopen_regular [OF fo]
        obtain bs where "fname ofs = p" "fpending ofs = []"
            "metaDataToFilepath h1 = metaDataToFilepath h" "quota h1 = quota h"
            "bufsiz h1 = bufsiz h" "files h1 p = Some (Regular bs)" "fpos ofs \<le> length bs"
          by (auto split: option.splits node.splits)
        with ws show ?thesis
          by (intro stream)
      qed
    qed
  qed
  then show ?thesis
    by (simp add: wr)
qed

lemma new_cursor: "cursor_in_store (LLFileSystem_new file_id file_type mode h)"
  by (simp add: LLFileSystem_new_def Let_def cursor_in_store_def)

lemma admissible_size: "admissible ops st \<Longrightarrow> current_size st \<le> INT_MAX"
  by (cases ops) simp_all

lemma step_cursor:
  assumes "cursor_in_store st" and "current_size st \<le> INT_MAX" and "flushes x st"
    and "current_size (step x st) \<le> INT_MAX"
  shows "cursor_in_store (step x st)"
proof -
  obtain s h where st: "st = (s, h)"
    by (cases st) auto
  show ?thesis
  proof (cases x)
    case (Read bytes)
    with assms st read_cursor [of s h bytes] show ?thesis
      by simp
  next
    case (Write buffer bytes)
    with assms st write_cursor [of s h buffer bytes] show ?thesis
      by simp
  next
    case (Seek offset origin)
    with assms st seek_cursor [of s h offset origin] show ?thesis
      by simp
  next
    case Tell
    with assms st show ?thesis
      by simp
  next
    case Eof
    with assms st show ?thesis
      by simp
  qed
qed

lemma run_cursor:
  "cursor_in_store st \<Longrightarrow> admissible ops st \<Longrightarrow> cursor_in_store (run ops st)"
proof (induction ops arbitrary: st)
  case Nil
  then show ?case
    by simp
next
  case (Cons x xs)
  have "cursor_in_store (step x st)"
    using Cons.prems admissible_size [of xs "step x st"] by (intro step_cursor) simp_all
  then show ?case
    using Cons.prems by (simp add: Cons.IH)
qed

lemma admissible_take: "admissible ops st \<Longrightarrow> admissible (take n ops) st"
proof (induction ops arbitrary: st n)
  case Nil
  then show ?case
    by simp
next
  case (Cons x xs)
  then show ?case
    by (cases n) simp_all
qed

text \<open>
  Claim C2, as stated: after every operation the cursor is at least 0 and at most the
  current size of the store. It fails where the end of the store is no \<^verbatim>\<open>S32\<close>
  value: one byte appended to a store of \<^verbatim>\<open>INT_MAX\<close> bytes leaves a negative cursor.
  It also fails where the volume does not store what a write left in its stream: on a
  full volume a truncating write of three bytes leaves the cursor at 3 and the store
  empty.
\<close>

theorem cursor_stays_in_store_counterexample:
  "sint (mPosition (fst (run [Write [1] 1] (LLFileSystem_new ''G'' 0 APPEND host1))))
     = - 2147483648
   \<and> \<not> cursor_in_store (run [Write [1] 1] (LLFileSystem_new ''G'' 0 APPEND host1))
   \<and> sint (mPosition (fst (run [Write [97, 98, 99] 3]
                              (LLFileSystem_new ''A'' 0 WRITE (host0\<lparr>quota := 0\<rparr>))))) = 3
   \<and> store_size ''cache/A'' (snd (run [Write [97, 98, 99] 3]
                                   (LLFileSystem_new ''A'' 0 WRITE (host0\<lparr>quota := 0\<rparr>)))) = 0
   \<and> \<not> cursor_in_store (run [Write [97, 98, 99] 3]
                            (LLFileSystem_new ''A'' 0 WRITE (host0\<lparr>quota := 0\<rparr>)))"
proof -
  have new1: "LLFileSystem_new ''G'' 0 APPEND host1 = (session0 ''G'' APPEND 0, host1)"
    by (simp add: LLFileSystem_new_def session0_def APPEND_def READ_def)
  have g: "write_buffer (session0 ''G'' APPEND 0) [1] 1 host1
      = (True, 1, session0 ''G'' APPEND 2147483648,
         after_store host1 ''cache/G'' (replicate 2147483647 0) 2147483647 [1])"
    using append_write [of "session0 ''G'' APPEND 0" host1 "replicate 2147483647 0" 1 "[1]"]
    by (simp add: session0_def host1_def session_path_def filepath_def)
  have r1: "run [Write [1] 1] (LLFileSystem_new ''G'' 0 APPEND host1)
      = (session0 ''G'' APPEND 2147483648,
         after_store host1 ''cache/G'' (replicate 2147483647 0) 2147483647 [1])"
    by (simp add: new1 g)
  have new2: "LLFileSystem_new ''A'' 0 WRITE (host0\<lparr>quota := 0\<rparr>)
      = (session0 ''A'' WRITE 0, host0\<lparr>quota := 0\<rparr>)"
    by (simp add: LLFileSystem_new_def session0_def WRITE_def READ_def)
  have size: "size_t 3 = 3"
    by (simp add: size_t_nonneg)
  have w: "write_buffer (session0 ''A'' WRITE 0) [97, 98, 99] 3 (host0\<lparr>quota := 0\<rparr>)
      = (True, 0, session0 ''A'' WRITE 3,
         host0\<lparr>files := (files host0)(''cache/A'' \<mapsto> Regular []), quota := 0\<rparr>)"
    by (simp add: write_buffer_def write_stream_def fwrite_def sys_write_def ftell_def
        fclose_def LLFile_fopen_def session0_def host0_def filepath_def size
        SSIZE_MAX_def WRITE_def APPEND_def READ_WRITE_def Let_def)
  have r2: "run [Write [97, 98, 99] 3] (LLFileSystem_new ''A'' 0 WRITE (host0\<lparr>quota := 0\<rparr>))
      = (session0 ''A'' WRITE 3,
         host0\<lparr>files := (files host0)(''cache/A'' \<mapsto> Regular []), quota := 0\<rparr>)"
    by (simp add: new2 w)
  show ?thesis
    unfolding r1 r2
    by (simp add: cursor_in_store_def session0_def session_path_def filepath_def
        store_size_files host0_def)
qed

text \<open>
  Claim C2, amended. A session is constructed in any mode on any identity, and a
  sequence of read, write, seek, tell and eof calls runs on it, during which the store
  is never larger than \<^verbatim>\<open>INT_MAX\<close> and the volume stores what every write left in its
  stream. After the construction and after every call of the sequence the cursor is at
  least 0 and at most the current size of the store. A rejected seek is no exception:
  it clamps the cursor into the same range.
\<close>

theorem cursor_stays_in_store:
  assumes "admissible ops (LLFileSystem_new file_id file_type mode h)"
  shows "\<forall>n \<le> length ops.
           cursor_in_store (run (take n ops) (LLFileSystem_new file_id file_type mode h))"
proof (intro allI impI)
  fix n
  have "admissible (take n ops) (LLFileSystem_new file_id file_type mode h)"
    using assms by (rule admissible_take)
  then show "cursor_in_store (run (take n ops) (LLFileSystem_new file_id file_type mode h))"
    by (intro run_cursor new_cursor)
qed

theorem cursor_stays_in_store_witness:
  "admissible ops0 (LLFileSystem_new ''A'' 0 READ_WRITE host0)
   \<and> (case run ops0 (LLFileSystem_new ''A'' 0 READ_WRITE host0) of (s, h) \<Rightarrow>
         files h ''cache/A'' = Some (Regular [102, 111, 120, 121])
         \<and> sint (mPosition s) = 2 \<and> cursor_in_store (s, h))"
proof -
  have size: "size_t 1 = 1" "size_t 2 = 2" "size_t 5 = 5"
    by (simp_all add: size_t_nonneg)
  note defs = LLFileSystem_new_def filepath_def seek_def getSize_def
    getFileSize_def LLFile_stat_def write_buffer_def write_stream_def LLFile_fopen_def
    fseek_def fwrite_def sys_write_def ftell_def fclose_def overwrite_def read_def fread_def
    size SSIZE_MAX_def LL_WARNS_def READ_def READ_WRITE_def APPEND_def Let_def
  have 1: "admissible ops0 (LLFileSystem_new ''A'' 0 READ_WRITE host0)"
    by (simp add: ops0_def host0_def defs current_size_def session_path_def store_size_def
        flush_complete_def request_def INT_MAX_def tell_def eof_def)
  have 2: "run ops0 (LLFileSystem_new ''A'' 0 READ_WRITE host0) =
      (\<lparr>mFileID = ''A'', mFileType = 0, mPosition = 2, mBytesRead = 1, mMode = READ_WRITE\<rparr>,
       host0\<lparr>files := (files host0)(''cache/A'' \<mapsto> Regular [102, 111, 120, 121]),
             quota := 1048574,
             warnings := [''Attempt to seek past end of file'']\<rparr>)"
    by (simp add: ops0_def host0_def defs tell_def eof_def)
  show ?thesis
    using 1 cursor_stays_in_store [OF 1, THEN spec, of "length ops0"]
    by (simp add: 2)
qed

end
